theory Spec2Isabelle
  imports Main "HOL-Library.Word"
begin

section \<open>The remote bolt protocol of ethdb/remote/bolt\_remote.go\<close>

text \<open>
  The development follows \<^verbatim>\<open>src/ethdb/remote/bolt_remote.go\<close>: the server's dispatch loop
  (\<^verbatim>\<open>Server\<close>), the connection acceptor (\<^verbatim>\<open>Listener\<close>) and the client (\<^verbatim>\<open>DB.View\<close>,
  \<^verbatim>\<open>Tx.Bucket\<close>). The bolt store and the CBOR codec are libraries outside the repository:
  the store is a parameter of the model (a record of its operations), and the codec is
  a stream of typed values.
\<close>

subsection \<open>Values on the wire\<close>

text \<open>
  A Go \<^verbatim>\<open>[]byte\<close> is either \<^verbatim>\<open>nil\<close> (here \<open>None\<close>) or a byte sequence, possibly empty.
  Handles, counts and the version are \<^verbatim>\<open>uint64\<close>; a \<^verbatim>\<open>Command\<close> is a \<^verbatim>\<open>uint8\<close>.
\<close>

type_synonym handle = "64 word"
type_synonym byteslice = "8 word list option"
type_synonym Command = "8 word"

datatype wire = WUint "64 word" | WText string | WBytes byteslice

text \<open>The three kinds of value a response is made of (its wire shape).\<close>

datatype kind = KUint | KText | KBytes

fun kind_of :: "wire \<Rightarrow> kind" where
  "kind_of (WUint _) = KUint"
| "kind_of (WText _) = KText"
| "kind_of (WBytes _) = KBytes"

text \<open>
  Errors that end a session. \<open>EOF\<close> is \<^verbatim>\<open>io.EOF\<close>: the input has no further value.
\<close>

datatype fatal = EOF | DecodeFailure | EncodeFailure | RollbackFailure string
  | UnknownCommand Command

definition Version :: "64 word" where "Version = 1"

definition CmdVersion :: Command where "CmdVersion = 0"
definition CmdLastError :: Command where "CmdLastError = 1"
definition CmdBeginTx :: Command where "CmdBeginTx = 2"
definition CmdEndTx :: Command where "CmdEndTx = 3"
definition CmdBucket :: Command where "CmdBucket = 4"
definition CmdGet :: Command where "CmdGet = 5"
definition CmdCursor :: Command where "CmdCursor = 6"
definition CmdSeek :: Command where "CmdSeek = 7"
definition CmdNext :: Command where "CmdNext = 8"

lemmas Cmd_defs = CmdVersion_def CmdLastError_def CmdBeginTx_def CmdEndTx_def
  CmdBucket_def CmdGet_def CmdCursor_def CmdSeek_def CmdNext_def

subsection \<open>The codec\<close>

text \<open>
  \<^verbatim>\<open>decoder.Decode(&x)\<close> reads the next value of the input into a variable of x's type.
  It fails with \<open>EOF\<close> on an exhausted input and with \<open>DecodeFailure\<close> on a value of
  another kind (or, for a \<^verbatim>\<open>uint8\<close>, a value above 255); the value it failed on is
  consumed. Each function returns the outcome and the input that remains.
\<close>

fun decode_uint64 :: "wire list \<Rightarrow> (fatal + 64 word) \<times> wire list" where
  "decode_uint64 [] = (Inl EOF, [])"
| "decode_uint64 (WUint n # r) = (Inr n, r)"
| "decode_uint64 (_ # r) = (Inl DecodeFailure, r)"

fun decode_bytes :: "wire list \<Rightarrow> (fatal + byteslice) \<times> wire list" where
  "decode_bytes [] = (Inl EOF, [])"
| "decode_bytes (WBytes b # r) = (Inr b, r)"
| "decode_bytes (_ # r) = (Inl DecodeFailure, r)"

fun decode_string :: "wire list \<Rightarrow> (fatal + string) \<times> wire list" where
  "decode_string [] = (Inl EOF, [])"
| "decode_string (WText t # r) = (Inr t, r)"
| "decode_string (_ # r) = (Inl DecodeFailure, r)"

fun decode_Command :: "wire list \<Rightarrow> (fatal + Command) \<times> wire list" where
  "decode_Command [] = (Inl EOF, [])"
| "decode_Command (WUint n # r) =
     (if n \<le> 255 then (Inr (ucast n), r) else (Inl DecodeFailure, r))"
| "decode_Command (_ # r) = (Inl DecodeFailure, r)"

text \<open>
  \<^verbatim>\<open>encoder.Encode(&x)\<close> appends one value to the output, unless the writer fails:
  \<open>wok written v\<close> tells whether the writer accepts \<open>v\<close> after \<open>written\<close>.
\<close>

definition encode :: "(wire list \<Rightarrow> wire \<Rightarrow> bool) \<Rightarrow> wire \<Rightarrow> wire list \<Rightarrow> fatal + wire list" where
  "encode wok v written = (if wok written v then Inr (written @ [v]) else Inl EncodeFailure)"

subsection \<open>The store\<close>

text \<open>
  The operations of bolt the server calls, over a store state \<open>'w\<close>, transactions \<open>'tx\<close>,
  buckets \<open>'b\<close> and cursors \<open>'c\<close>. \<^verbatim>\<open>db.Begin(false)\<close> and \<^verbatim>\<open>tx.Rollback()\<close> may fail with a
  message; a cursor is a mutable object, so its operations return its next state.
  \<open>write_ok\<close> is the connection's writer.
\<close>

record ('w, 'tx, 'b, 'c) env =
  db_Begin :: "'w \<Rightarrow> (string + 'tx) \<times> 'w"
  tx_Rollback :: "'tx \<Rightarrow> 'w \<Rightarrow> string option \<times> 'w"
  tx_Bucket :: "'tx \<Rightarrow> byteslice \<Rightarrow> 'b option"
  bucket_Get :: "'b \<Rightarrow> byteslice \<Rightarrow> byteslice"
  bucket_Cursor :: "'b \<Rightarrow> 'c"
  cursor_Seek :: "'c \<Rightarrow> byteslice \<Rightarrow> (byteslice \<times> byteslice) \<times> 'c"
  cursor_Next :: "'c \<Rightarrow> (byteslice \<times> byteslice) \<times> 'c"
  write_ok :: "wire list \<Rightarrow> wire \<Rightarrow> bool"

subsection \<open>The server's session\<close>

text \<open>
  The local variables of \<^verbatim>\<open>Server\<close>, the rollbacks it has deferred (latest first), the
  values written so far, the store, and whether the connection was closed.
  \<open>issued\<close> is a history variable that the source does not have: it lists the handles
  in the order \<^verbatim>\<open>lastHandle++\<close> produced them. Nothing reads it.
\<close>

record ('w, 'tx, 'b, 'c) session =
  lastError :: "string option"
  lastHandle :: handle
  transactions :: "handle \<rightharpoonup> 'tx"
  buckets :: "handle \<rightharpoonup> 'b"
  bucketsByTx :: "handle \<rightharpoonup> handle list"
  cursors :: "handle \<rightharpoonup> 'c"
  cursorsByBucket :: "handle \<rightharpoonup> handle list"
  deferred :: "'tx list"
  out :: "wire list"
  world :: 'w
  closed :: bool
  issued :: "handle list"

definition init :: "'w \<Rightarrow> ('w, 'tx, 'b, 'c) session" where
  "init w = \<lparr> lastError = None, lastHandle = 0, transactions = Map.empty,
     buckets = Map.empty, bucketsByTx = Map.empty, cursors = Map.empty,
     cursorsByBucket = Map.empty, deferred = [], out = [], world = w,
     closed = False, issued = [] \<rparr>"

text \<open>Encode one value of the response; an encode error ends the session.\<close>

definition Encode :: "('w, 'tx, 'b, 'c) env \<Rightarrow> wire \<Rightarrow> ('w, 'tx, 'b, 'c) session
    \<Rightarrow> ('w, 'tx, 'b, 'c) session \<times> fatal option" where
  "Encode env v s =
     (case encode (write_ok env) v (out s) of
        Inl e \<Rightarrow> (s, Some e)
      | Inr written \<Rightarrow> (s\<lparr>out := written\<rparr>, None))"

text \<open>\<^verbatim>\<open>fmt.Sprintf("%v", lastError)\<close>: a nil error prints as \<^verbatim>\<open><nil>\<close>.\<close>

definition errorString :: "string option \<Rightarrow> string" where
  "errorString e = (case e of None \<Rightarrow> ''<nil>'' | Some m \<Rightarrow> m)"

text \<open>
  Each command takes the input after its tag and the session, and returns the input
  that remains, the session, and the error that ends the session, if any.
\<close>

definition do_Version :: "('w, 'tx, 'b, 'c) env \<Rightarrow> wire list \<Rightarrow> ('w, 'tx, 'b, 'c) session
    \<Rightarrow> wire list \<times> ('w, 'tx, 'b, 'c) session \<times> fatal option" where
  "do_Version env inp s = (inp, Encode env (WUint Version) s)"

definition do_LastError :: "('w, 'tx, 'b, 'c) env \<Rightarrow> wire list \<Rightarrow> ('w, 'tx, 'b, 'c) session
    \<Rightarrow> wire list \<times> ('w, 'tx, 'b, 'c) session \<times> fatal option" where
  "do_LastError env inp s = (inp, Encode env (WText (errorString (lastError s))) s)"

definition do_BeginTx :: "('w, 'tx, 'b, 'c) env \<Rightarrow> wire list \<Rightarrow> ('w, 'tx, 'b, 'c) session
    \<Rightarrow> wire list \<times> ('w, 'tx, 'b, 'c) session \<times> fatal option" where
  "do_BeginTx env inp s =
     (case db_Begin env (world s) of
        (Inl msg, w) \<Rightarrow>
          (inp, Encode env (WUint 0) (s\<lparr>world := w, lastError := Some msg\<rparr>))
      | (Inr tx, w) \<Rightarrow>
          (let txHandle = lastHandle s + 1 in
           (inp, Encode env (WUint txHandle)
              (s\<lparr>world := w, lastError := None, deferred := tx # deferred s,
                 lastHandle := txHandle,
                 transactions := (transactions s)(txHandle \<mapsto> tx),
                 issued := issued s @ [txHandle]\<rparr>))))"

text \<open>The body of the loop over \<^verbatim>\<open>bucketHandles\<close> in \<^verbatim>\<open>CmdEndTx\<close>.\<close>

definition remove_bucket :: "handle \<Rightarrow> ('w, 'tx, 'b, 'c) session \<Rightarrow> ('w, 'tx, 'b, 'c) session" where
  "remove_bucket bucketHandle s =
     (let s1 = (case cursorsByBucket s bucketHandle of
                  Some cursorHandles \<Rightarrow>
                    s\<lparr>cursors := fold (\<lambda>cursorHandle m. m(cursorHandle := None))
                                     cursorHandles (cursors s),
                      cursorsByBucket := (cursorsByBucket s)(bucketHandle := None)\<rparr>
                | None \<Rightarrow> s)
      in s1\<lparr>buckets := (buckets s1)(bucketHandle := None)\<rparr>)"

definition remove_buckets :: "handle \<Rightarrow> ('w, 'tx, 'b, 'c) session \<Rightarrow> ('w, 'tx, 'b, 'c) session" where
  "remove_buckets txHandle s =
     (case bucketsByTx s txHandle of
        Some bucketHandles \<Rightarrow>
          (let s1 = fold remove_bucket bucketHandles s
           in s1\<lparr>bucketsByTx := (bucketsByTx s1)(txHandle := None)\<rparr>)
      | None \<Rightarrow> s)"

definition do_EndTx :: "('w, 'tx, 'b, 'c) env \<Rightarrow> wire list \<Rightarrow> ('w, 'tx, 'b, 'c) session
    \<Rightarrow> wire list \<times> ('w, 'tx, 'b, 'c) session \<times> fatal option" where
  "do_EndTx env inp s =
     (case decode_uint64 inp of
        (Inl e, r) \<Rightarrow> (r, s, Some e)
      | (Inr txHandle, r) \<Rightarrow>
          (case transactions s txHandle of
             Some tx \<Rightarrow>
               (let s1 = remove_buckets txHandle s in
                case tx_Rollback env tx (world s1) of
                  (Some msg, w) \<Rightarrow> (r, s1\<lparr>world := w\<rparr>, Some (RollbackFailure msg))
                | (None, w) \<Rightarrow>
                    (r, s1\<lparr>world := w,
                           transactions := (transactions s1)(txHandle := None),
                           lastError := None\<rparr>, None))
           | None \<Rightarrow> (r, s\<lparr>lastError := Some ''transaction not found''\<rparr>, None)))"

definition do_Bucket :: "('w, 'tx, 'b, 'c) env \<Rightarrow> wire list \<Rightarrow> ('w, 'tx, 'b, 'c) session
    \<Rightarrow> wire list \<times> ('w, 'tx, 'b, 'c) session \<times> fatal option" where
  "do_Bucket env inp s =
     (case decode_uint64 inp of
        (Inl e, r) \<Rightarrow> (r, s, Some e)
      | (Inr txHandle, r) \<Rightarrow>
          (case decode_bytes r of
             (Inl e, r') \<Rightarrow> (r', s, Some e)
           | (Inr name, r') \<Rightarrow>
               (case transactions s txHandle of
                  Some tx \<Rightarrow>
                    (case tx_Bucket env tx name of
                       None \<Rightarrow>
                         (r', Encode env (WUint 0) (s\<lparr>lastError := Some ''bucket not found''\<rparr>))
                     | Some bucket \<Rightarrow>
                         (let bucketHandle = lastHandle s + 1 in
                          (r', Encode env (WUint bucketHandle)
                             (s\<lparr>lastHandle := bucketHandle,
                                buckets := (buckets s)(bucketHandle \<mapsto> bucket),
                                bucketsByTx := (bucketsByTx s)(txHandle \<mapsto>
                                  (case bucketsByTx s txHandle of
                                     Some bucketHandles \<Rightarrow> bucketHandles @ [bucketHandle]
                                   | None \<Rightarrow> [bucketHandle])),
                                lastError := None,
                                issued := issued s @ [bucketHandle]\<rparr>))))
                | None \<Rightarrow>
                    (r', Encode env (WUint 0)
                           (s\<lparr>lastError := Some ''transaction not found''\<rparr>)))))"

definition do_Get :: "('w, 'tx, 'b, 'c) env \<Rightarrow> wire list \<Rightarrow> ('w, 'tx, 'b, 'c) session
    \<Rightarrow> wire list \<times> ('w, 'tx, 'b, 'c) session \<times> fatal option" where
  "do_Get env inp s =
     (case decode_uint64 inp of
        (Inl e, r) \<Rightarrow> (r, s, Some e)
      | (Inr bucketHandle, r) \<Rightarrow>
          (case decode_bytes r of
             (Inl e, r') \<Rightarrow> (r', s, Some e)
           | (Inr key, r') \<Rightarrow>
               (case buckets s bucketHandle of
                  Some bucket \<Rightarrow>
                    (r', Encode env (WBytes (bucket_Get env bucket key)) (s\<lparr>lastError := None\<rparr>))
                | None \<Rightarrow>
                    (r', Encode env (WBytes None) (s\<lparr>lastError := Some ''bucket not found''\<rparr>)))))"

definition do_Cursor :: "('w, 'tx, 'b, 'c) env \<Rightarrow> wire list \<Rightarrow> ('w, 'tx, 'b, 'c) session
    \<Rightarrow> wire list \<times> ('w, 'tx, 'b, 'c) session \<times> fatal option" where
  "do_Cursor env inp s =
     (case decode_uint64 inp of
        (Inl e, r) \<Rightarrow> (r, s, Some e)
      | (Inr bucketHandle, r) \<Rightarrow>
          (case buckets s bucketHandle of
             Some bucket \<Rightarrow>
               (let cursor = bucket_Cursor env bucket;
                    cursorHandle = lastHandle s + 1 in
                (r, Encode env (WUint cursorHandle)
                      (s\<lparr>lastHandle := cursorHandle,
                         cursors := (cursors s)(cursorHandle \<mapsto> cursor),
                         cursorsByBucket := (cursorsByBucket s)(bucketHandle \<mapsto>
                           (case cursorsByBucket s bucketHandle of
                              Some cursorHandles \<Rightarrow> cursorHandles @ [cursorHandle]
                            | None \<Rightarrow> [cursorHandle])),
                         lastError := None,
                         issued := issued s @ [cursorHandle]\<rparr>)))
           | None \<Rightarrow>
               (r, Encode env (WUint 0) (s\<lparr>lastError := Some ''bucket not found''\<rparr>))))"

text \<open>Two values in a row: the second is not written when the first fails.\<close>

definition Encode2 :: "('w, 'tx, 'b, 'c) env \<Rightarrow> wire \<Rightarrow> wire \<Rightarrow> ('w, 'tx, 'b, 'c) session
    \<Rightarrow> ('w, 'tx, 'b, 'c) session \<times> fatal option" where
  "Encode2 env k v s =
     (case Encode env k s of
        (s1, Some e) \<Rightarrow> (s1, Some e)
      | (s1, None) \<Rightarrow> Encode env v s1)"

definition do_Seek :: "('w, 'tx, 'b, 'c) env \<Rightarrow> wire list \<Rightarrow> ('w, 'tx, 'b, 'c) session
    \<Rightarrow> wire list \<times> ('w, 'tx, 'b, 'c) session \<times> fatal option" where
  "do_Seek env inp s =
     (case decode_uint64 inp of
        (Inl e, r) \<Rightarrow> (r, s, Some e)
      | (Inr cursorHandle, r) \<Rightarrow>
          (case decode_bytes r of
             (Inl e, r') \<Rightarrow> (r', s, Some e)
           | (Inr seekKey, r') \<Rightarrow>
               (case cursors s cursorHandle of
                  Some cursor \<Rightarrow>
                    (case cursor_Seek env cursor seekKey of
                       ((key, val), cursor') \<Rightarrow>
                         (r', Encode2 env (WBytes key) (WBytes val)
                                (s\<lparr>cursors := (cursors s)(cursorHandle \<mapsto> cursor'),
                                   lastError := None\<rparr>)))
                | None \<Rightarrow>
                    (r', Encode2 env (WBytes None) (WBytes None)
                           (s\<lparr>lastError := Some ''cursor not found''\<rparr>)))))"

text \<open>
  The loop \<^verbatim>\<open>for numberOfKeys > 0\<close> of \<^verbatim>\<open>CmdNext\<close>, on the cursor and the output: it
  returns the encode error if one occurred, the cursor and the output.
\<close>

function next_loop :: "('w, 'tx, 'b, 'c) env \<Rightarrow> 64 word \<Rightarrow> 'c \<Rightarrow> wire list
    \<Rightarrow> fatal option \<times> 'c \<times> wire list" where
  "next_loop env numberOfKeys cursor written =
     (if 0 < numberOfKeys then
        (case cursor_Next env cursor of
           ((key, val), cursor') \<Rightarrow>
             (case encode (write_ok env) (WBytes key) written of
                Inl e \<Rightarrow> (Some e, cursor', written)
              | Inr written1 \<Rightarrow>
                  (case encode (write_ok env) (WBytes val) written1 of
                     Inl e \<Rightarrow> (Some e, cursor', written1)
                   | Inr written2 \<Rightarrow>
                       (if key = None then (None, cursor', written2)
                        else next_loop env (numberOfKeys - 1) cursor' written2))))
      else (None, cursor, written))"
  by pat_completeness auto
termination
  by (relation "measure (\<lambda>(env, n, cursor, written). unat n)")
     (auto simp: unat_minus_one word_neq_0_conv [symmetric] unat_gt_0)

declare next_loop.simps [simp del]

text \<open>
  A failed decode of \<^verbatim>\<open>numberOfKeys\<close> is logged and the command goes on with the
  variable's zero value.
\<close>

definition do_Next :: "('w, 'tx, 'b, 'c) env \<Rightarrow> wire list \<Rightarrow> ('w, 'tx, 'b, 'c) session
    \<Rightarrow> wire list \<times> ('w, 'tx, 'b, 'c) session \<times> fatal option" where
  "do_Next env inp s =
     (case decode_uint64 inp of
        (Inl e, r) \<Rightarrow> (r, s, Some e)
      | (Inr cursorHandle, r) \<Rightarrow>
          (case decode_uint64 r of
             (res, r') \<Rightarrow>
               (let numberOfKeys = (case res of Inl e \<Rightarrow> 0 | Inr n \<Rightarrow> n) in
                case cursors s cursorHandle of
                  Some cursor \<Rightarrow>
                    (case next_loop env numberOfKeys cursor (out s) of
                       (Some e, cursor', written) \<Rightarrow>
                         (r', s\<lparr>cursors := (cursors s)(cursorHandle \<mapsto> cursor'),
                                out := written\<rparr>, Some e)
                     | (None, cursor', written) \<Rightarrow>
                         (r', s\<lparr>cursors := (cursors s)(cursorHandle \<mapsto> cursor'),
                                out := written, lastError := None\<rparr>, None))
                | None \<Rightarrow> (r', s\<lparr>lastError := Some ''cursor not found''\<rparr>, None))))"

text \<open>The \<^verbatim>\<open>switch c\<close> of the loop.\<close>

definition dispatch :: "('w, 'tx, 'b, 'c) env \<Rightarrow> Command \<Rightarrow> wire list \<Rightarrow> ('w, 'tx, 'b, 'c) session
    \<Rightarrow> wire list \<times> ('w, 'tx, 'b, 'c) session \<times> fatal option" where
  "dispatch env c inp s =
     (if c = CmdVersion then do_Version env inp s
      else if c = CmdLastError then do_LastError env inp s
      else if c = CmdBeginTx then do_BeginTx env inp s
      else if c = CmdEndTx then do_EndTx env inp s
      else if c = CmdBucket then do_Bucket env inp s
      else if c = CmdGet then do_Get env inp s
      else if c = CmdCursor then do_Cursor env inp s
      else if c = CmdSeek then do_Seek env inp s
      else if c = CmdNext then do_Next env inp s
      else (inp, s, Some (UnknownCommand c)))"

text \<open>
  One round of the loop: decode the command, then dispatch. The end of the input at a
  command boundary ends the session without an error.
\<close>

datatype ('w, 'tx, 'b, 'c) round =
  Halt "fatal option" "('w, 'tx, 'b, 'c) session"
| Cont "wire list" "('w, 'tx, 'b, 'c) session"

definition one_command :: "('w, 'tx, 'b, 'c) env \<Rightarrow> wire list \<Rightarrow> ('w, 'tx, 'b, 'c) session
    \<Rightarrow> ('w, 'tx, 'b, 'c) round" where
  "one_command env inp s =
     (case decode_Command inp of
        (Inl e, r) \<Rightarrow> (if e = EOF then Halt None s else Halt (Some e) s)
      | (Inr c, r) \<Rightarrow>
          (case dispatch env c r s of
             (inp', s', Some e) \<Rightarrow> Halt (Some e) s'
           | (inp', s', None) \<Rightarrow> Cont inp' s'))"

lemma decode_uint64_length: "length (snd (decode_uint64 inp)) \<le> length inp"
  by (cases inp rule: decode_uint64.cases) auto

lemma decode_bytes_length: "length (snd (decode_bytes inp)) \<le> length inp"
  by (cases inp rule: decode_bytes.cases) auto

lemma decode_Command_length:
  "decode_Command inp = (Inr c, r) \<Longrightarrow> length r < length inp"
  by (cases inp rule: decode_Command.cases) (auto split: if_splits)

lemma decode_uint64_shorter: "decode_uint64 inp = (x, r) \<Longrightarrow> length r \<le> length inp"
  using decode_uint64_length [of inp] by simp

lemma decode_bytes_shorter: "decode_bytes inp = (x, r) \<Longrightarrow> length r \<le> length inp"
  using decode_bytes_length [of inp] by simp

lemma do_EndTx_length: "do_EndTx env inp s = (inp', s', r) \<Longrightarrow> length inp' \<le> length inp"
  by (auto simp: do_EndTx_def Let_def split: prod.splits sum.splits option.splits
      dest: decode_uint64_shorter)

lemma do_Bucket_length: "do_Bucket env inp s = (inp', s', r) \<Longrightarrow> length inp' \<le> length inp"
  by (auto simp: do_Bucket_def Let_def split: prod.splits sum.splits option.splits
      dest!: decode_uint64_shorter decode_bytes_shorter)

lemma do_Get_length: "do_Get env inp s = (inp', s', r) \<Longrightarrow> length inp' \<le> length inp"
  by (auto simp: do_Get_def Let_def split: prod.splits sum.splits option.splits
      dest!: decode_uint64_shorter decode_bytes_shorter)

lemma do_Cursor_length: "do_Cursor env inp s = (inp', s', r) \<Longrightarrow> length inp' \<le> length inp"
  by (auto simp: do_Cursor_def Let_def split: prod.splits sum.splits option.splits
      dest!: decode_uint64_shorter)

lemma do_Seek_length: "do_Seek env inp s = (inp', s', r) \<Longrightarrow> length inp' \<le> length inp"
  by (auto simp: do_Seek_def Let_def split: prod.splits sum.splits option.splits
      dest!: decode_uint64_shorter decode_bytes_shorter)

lemma do_Next_length: "do_Next env inp s = (inp', s', r) \<Longrightarrow> length inp' \<le> length inp"
  by (auto simp: do_Next_def Let_def split: prod.splits sum.splits option.splits
      dest!: decode_uint64_shorter)

lemma dispatch_length: "dispatch env c inp s = (inp', s', r) \<Longrightarrow> length inp' \<le> length inp"
  by (auto simp: dispatch_def do_Version_def do_LastError_def do_BeginTx_def Let_def
      split: if_splits prod.splits sum.splits
      dest: do_EndTx_length do_Bucket_length do_Get_length do_Cursor_length do_Seek_length
        do_Next_length)

lemma one_command_length:
  "one_command env inp s = Cont inp' s' \<Longrightarrow> length inp' < length inp"
  by (auto simp: one_command_def split: prod.splits sum.splits option.splits if_splits
      dest!: decode_Command_length dispatch_length)

function Server_loop :: "('w, 'tx, 'b, 'c) env \<Rightarrow> wire list \<Rightarrow> ('w, 'tx, 'b, 'c) session
    \<Rightarrow> fatal option \<times> ('w, 'tx, 'b, 'c) session" where
  "Server_loop env inp s =
     (case one_command env inp s of
        Halt r s' \<Rightarrow> (r, s')
      | Cont inp' s' \<Rightarrow> Server_loop env inp' s')"
  by pat_completeness auto
termination
  by (relation "measure (\<lambda>(env, inp, s). length inp)") (auto dest: one_command_length)

declare Server_loop.simps [simp del]

text \<open>
  The deferred calls of \<^verbatim>\<open>Server\<close>, in the order Go runs them on every return: the
  rollbacks, latest first (a failing one is logged), then the connection is closed.
\<close>

definition cleanup :: "('w, 'tx, 'b, 'c) env \<Rightarrow> ('w, 'tx, 'b, 'c) session \<Rightarrow> ('w, 'tx, 'b, 'c) session" where
  "cleanup env s =
     s\<lparr>world := fold (\<lambda>tx w. snd (tx_Rollback env tx w)) (deferred s) (world s),
       closed := True\<rparr>"

definition Server :: "('w, 'tx, 'b, 'c) env \<Rightarrow> 'w \<Rightarrow> wire list
    \<Rightarrow> fatal option \<times> ('w, 'tx, 'b, 'c) session" where
  "Server env db inp = (case Server_loop env inp (init db) of (r, s) \<Rightarrow> (r, cleanup env s))"

text \<open>
  The session after a number of rounds of the loop, with the input that remains;
  \<open>None\<close> when the loop has ended before.
\<close>

fun after_rounds :: "('w, 'tx, 'b, 'c) env \<Rightarrow> nat \<Rightarrow> wire list \<Rightarrow> ('w, 'tx, 'b, 'c) session
    \<Rightarrow> (wire list \<times> ('w, 'tx, 'b, 'c) session) option" where
  "after_rounds env 0 inp s = Some (inp, s)"
| "after_rounds env (Suc n) inp s =
     (case one_command env inp s of
        Halt r s' \<Rightarrow> None
      | Cont inp' s' \<Rightarrow> after_rounds env n inp' s')"

subsection \<open>The connection acceptor\<close>

text \<open>
  \<^verbatim>\<open>Listener\<close> against a finite run of its environment: each entry is what one call of
  \<^verbatim>\<open>ln.Accept()\<close> returns, and whether a value is ready on \<^verbatim>\<open>interruptCh\<close> when the
  \<^verbatim>\<open>select\<close> after it polls the channel. The result is what the function did, in
  order, and whether it has returned; when the entries are used up it is blocked in
  \<^verbatim>\<open>ln.Accept()\<close>. The \<^verbatim>\<open>break\<close> in the \<^verbatim>\<open>select\<close> leaves the \<^verbatim>\<open>select\<close>, as Go defines
  it, and the \<^verbatim>\<open>for\<close> has no other exit.
\<close>

datatype accepted = AcceptError | Conn nat

datatype action = LogListenError | LogListening | LogAcceptError | GoServer nat
  | LogInterrupted | CloseListener

fun accept_loop :: "bool \<Rightarrow> (accepted \<times> bool) list \<Rightarrow> action list" where
  "accept_loop has_ch [] = []"
| "accept_loop has_ch ((AcceptError, ready) # es) = LogAcceptError # accept_loop has_ch es"
| "accept_loop has_ch ((Conn c, ready) # es) =
     GoServer c # (if has_ch \<and> ready then [LogInterrupted] else []) @ accept_loop has_ch es"

definition Listener :: "bool \<Rightarrow> bool \<Rightarrow> (accepted \<times> bool) list \<Rightarrow> action list \<times> bool" where
  "Listener listen_ok has_ch es =
     (if \<not> listen_ok then ([LogListenError], True)
      else (LogListening # accept_loop has_ch es, False))"

subsection \<open>The client\<close>

text \<open>
  \<^verbatim>\<open>DB\<close> holds the reader and the writer: \<open>db_in\<close> is what the server will still send,
  \<open>db_out\<close> what was written to it, and \<open>app\<close> the state of the caller, which the closure
  given to \<^verbatim>\<open>View\<close> may change. A \<^verbatim>\<open>Tx\<close> wraps the handle (its \<^verbatim>\<open>db\<close> field is the \<open>DB\<close>
  passed along).
\<close>

datatype error = Codec fatal | Message string

record Tx =
  txHandle :: handle

record Bucket =
  bucketHandle :: handle

record 'u DB =
  db_in :: "wire list"
  db_out :: "wire list"
  app :: 'u

definition View :: "(wire list \<Rightarrow> wire \<Rightarrow> bool) \<Rightarrow> (Tx \<Rightarrow> 'u DB \<Rightarrow> error option \<times> 'u DB)
    \<Rightarrow> 'u DB \<Rightarrow> error option \<times> 'u DB" where
  "View wok f db =
     (case encode wok (WUint (ucast CmdBeginTx)) (db_out db) of
        Inl e \<Rightarrow> (Some (Codec e), db)
      | Inr o1 \<Rightarrow>
          (case decode_uint64 (db_in db) of
             (Inl e, r) \<Rightarrow> (Some (Codec e), db\<lparr>db_in := r, db_out := o1\<rparr>)
           | (Inr h, r) \<Rightarrow>
               (if h = 0 then
                  (case encode wok (WUint (ucast CmdLastError)) o1 of
                     Inl e \<Rightarrow> (Some (Codec e), db\<lparr>db_in := r, db_out := o1\<rparr>)
                   | Inr o2 \<Rightarrow>
                       (case decode_string r of
                          (Inl e, r') \<Rightarrow> (Some (Codec e), db\<lparr>db_in := r', db_out := o2\<rparr>)
                        | (Inr lastErrorStr, r') \<Rightarrow>
                            (Some (Message lastErrorStr), db\<lparr>db_in := r', db_out := o2\<rparr>)))
                else
                  (case f \<lparr>txHandle = h\<rparr> (db\<lparr>db_in := r, db_out := o1\<rparr>) of
                     (opErr, db') \<Rightarrow>
                       (case encode wok (WUint (ucast CmdEndTx)) (db_out db') of
                          Inl e \<Rightarrow> (Some (Codec e), db')
                        | Inr o3 \<Rightarrow>
                            (case encode wok (WUint h) o3 of
                               Inl e \<Rightarrow> (Some (Codec e), db'\<lparr>db_out := o3\<rparr>)
                             | Inr o4 \<Rightarrow> (opErr, db'\<lparr>db_out := o4\<rparr>)))))))"

definition Tx_Bucket :: "Tx \<Rightarrow> byteslice \<Rightarrow> 'u DB \<Rightarrow> Bucket option \<times> 'u DB" where
  "Tx_Bucket tx name db = (None, db)"

subsection \<open>A small store\<close>

text \<open>
  A store with one bucket, \<^verbatim>\<open>data\<close>, holding \<^verbatim>\<open>a:1\<close>, \<^verbatim>\<open>b:2\<close>, \<^verbatim>\<open>c:3\<close>, whose operations
  never fail; a cursor is the bucket's pairs with those from its position on. It is
  the concrete input of the closed theorems below.
\<close>

type_synonym pairs = "(8 word list \<times> 8 word list) list"

definition demo_items :: pairs where
  "demo_items = [([97], [49]), ([98], [50]), ([99], [51])]"

fun bytes_le :: "8 word list \<Rightarrow> 8 word list \<Rightarrow> bool" where
  "bytes_le [] ys = True"
| "bytes_le (x # xs) [] = False"
| "bytes_le (x # xs) (y # ys) = (x < y \<or> (x = y \<and> bytes_le xs ys))"

fun head_pair :: "pairs \<Rightarrow> byteslice \<times> byteslice" where
  "head_pair [] = (None, None)"
| "head_pair ((k, v) # kvs) = (Some k, Some v)"

definition demo_Seek :: "pairs \<times> pairs \<Rightarrow> byteslice \<Rightarrow> (byteslice \<times> byteslice) \<times> pairs \<times> pairs" where
  "demo_Seek c seekKey =
     (let k = (case seekKey of None \<Rightarrow> [] | Some k \<Rightarrow> k);
          rest = dropWhile (\<lambda>kv. \<not> bytes_le k (fst kv)) (fst c)
      in (head_pair rest, (fst c, rest)))"

definition demo_Next :: "pairs \<times> pairs \<Rightarrow> (byteslice \<times> byteslice) \<times> pairs \<times> pairs" where
  "demo_Next c = (head_pair (tl (snd c)), (fst c, tl (snd c)))"

definition demo_env :: "(unit, unit, pairs, pairs \<times> pairs) env" where
  "demo_env = \<lparr>
     db_Begin = (\<lambda>w. (Inr (), w)),
     tx_Rollback = (\<lambda>tx w. (None, w)),
     tx_Bucket = (\<lambda>tx name. if name = Some [100, 97, 116, 97] then Some demo_items else None),
     bucket_Get = (\<lambda>b key. case key of None \<Rightarrow> None | Some k \<Rightarrow> map_of b k),
     bucket_Cursor = (\<lambda>b. (b, [])),
     cursor_Seek = demo_Seek,
     cursor_Next = demo_Next,
     write_ok = (\<lambda>written v. True) \<rparr>"

definition demo_closure :: "Tx \<Rightarrow> nat DB \<Rightarrow> error option \<times> nat DB" where
  "demo_closure tx db = (Some (Message ''stop''), db\<lparr>app := Suc (app db)\<rparr>)"

text \<open>
  The session after \<^verbatim>\<open>BeginTx\<close>, \<^verbatim>\<open>Bucket(1, "data")\<close>, \<^verbatim>\<open>Cursor(2)\<close> and \<^verbatim>\<open>Seek(3, "")\<close>
  on the small store (lemma \<open>demo_session_reached\<close>).
\<close>

definition demo_input :: "wire list" where
  "demo_input = [WUint 2, WUint 4, WUint 1, WBytes (Some [100, 97, 116, 97]), WUint 6, WUint 2,
     WUint 7, WUint 3, WBytes (Some [])]"

definition demo_session :: "(unit, unit, pairs, pairs \<times> pairs) session" where
  "demo_session = \<lparr> lastError = None, lastHandle = 3,
     transactions = [1 \<mapsto> ()], buckets = [2 \<mapsto> demo_items], bucketsByTx = [1 \<mapsto> [2]],
     cursors = [3 \<mapsto> (demo_items, demo_items)], cursorsByBucket = [2 \<mapsto> [3]],
     deferred = [()],
     out = [WUint 1, WUint 2, WUint 3, WBytes (Some [97]), WBytes (Some [49])],
     world = (), closed = False, issued = [1, 2, 3] \<rparr>"

text \<open>The same session when an earlier command has left an error in \<^verbatim>\<open>lastError\<close>.\<close>

definition stale_session :: "(unit, unit, pairs, pairs \<times> pairs) session" where
  "stale_session = demo_session\<lparr>lastError := Some ''stale''\<rparr>"

subsection \<open>What a cursor yields\<close>

text \<open>
  For stating what \<^verbatim>\<open>CmdNext\<close> sends: the cursor after \<open>k\<close> calls of \<^verbatim>\<open>cursor.Next()\<close>, the
  pair that call number \<open>i\<close> (from 0) returns, and the values that the first \<open>k\<close> pairs
  make on the wire.
\<close>

definition cursor_after :: "('w, 'tx, 'b, 'c) env \<Rightarrow> 'c \<Rightarrow> nat \<Rightarrow> 'c" where
  "cursor_after env c k = ((\<lambda>c. snd (cursor_Next env c)) ^^ k) c"

definition pair_no :: "('w, 'tx, 'b, 'c) env \<Rightarrow> 'c \<Rightarrow> nat \<Rightarrow> byteslice \<times> byteslice" where
  "pair_no env c i = fst (cursor_Next env (cursor_after env c i))"

definition emit :: "byteslice \<times> byteslice \<Rightarrow> wire list" where
  "emit kv = [WBytes (fst kv), WBytes (snd kv)]"

definition emitted :: "('w, 'tx, 'b, 'c) env \<Rightarrow> 'c \<Rightarrow> nat \<Rightarrow> wire list" where
  "emitted env c k = concat (map (\<lambda>i. emit (pair_no env c i)) [0..<k])"

subsection \<open>The response to one command\<close>

text \<open>
  The values one round of the loop writes, and their kinds: the wire shape of the
  response.
\<close>

definition reply :: "('w, 'tx, 'b, 'c) env \<Rightarrow> wire list \<Rightarrow> ('w, 'tx, 'b, 'c) session \<Rightarrow> wire list" where
  "reply env inp s =
     (case one_command env inp s of
        Halt r s' \<Rightarrow> drop (length (out s)) (out s')
      | Cont inp' s' \<Rightarrow> drop (length (out s)) (out s'))"

definition shape :: "('w, 'tx, 'b, 'c) env \<Rightarrow> wire list \<Rightarrow> ('w, 'tx, 'b, 'c) session \<Rightarrow> kind list" where
  "shape env inp s = map kind_of (reply env inp s)"

subsection \<open>What a round does to the handles\<close>

text \<open>
  For the invariants of the session. A round either \<open>keeps\<close> the handles (it issues
  none, and registers none), or it issues the handle \<^verbatim>\<open>lastHandle + 1\<close>, answers with
  it, and registers it as a transaction, as a bucket under a known transaction, or as
  a cursor under a known bucket.
\<close>

definition keeps :: "('w, 'tx, 'b, 'c) session \<Rightarrow> ('w, 'tx, 'b, 'c) session \<Rightarrow> bool" where
  "keeps s s' \<longleftrightarrow>
     issued s' = issued s \<and> lastHandle s' = lastHandle s \<and>
     dom (transactions s') \<subseteq> dom (transactions s) \<and>
     dom (buckets s') \<subseteq> dom (buckets s) \<and>
     dom (cursors s') \<subseteq> dom (cursors s) \<and>
     (\<forall>t bs. bucketsByTx s' t = Some bs \<longrightarrow> bucketsByTx s t = Some bs) \<and>
     (\<forall>b cs. cursorsByBucket s' b = Some cs \<longrightarrow> cursorsByBucket s b = Some cs)"

definition issues :: "('w, 'tx, 'b, 'c) session \<Rightarrow> ('w, 'tx, 'b, 'c) session \<Rightarrow> handle \<Rightarrow> bool" where
  "issues s s' h \<longleftrightarrow>
     h = lastHandle s + 1 \<and> issued s' = issued s @ [h] \<and> lastHandle s' = h \<and>
     out s' = out s @ [WUint h] \<and> lastError s' = None"

definition allocates_tx :: "('w, 'tx, 'b, 'c) session \<Rightarrow> ('w, 'tx, 'b, 'c) session \<Rightarrow> handle \<Rightarrow> bool" where
  "allocates_tx s s' h \<longleftrightarrow>
     issues s s' h \<and> dom (transactions s') = insert h (dom (transactions s)) \<and>
     buckets s' = buckets s \<and> cursors s' = cursors s \<and>
     bucketsByTx s' = bucketsByTx s \<and> cursorsByBucket s' = cursorsByBucket s"

definition allocates_bucket :: "('w, 'tx, 'b, 'c) session \<Rightarrow> ('w, 'tx, 'b, 'c) session \<Rightarrow> handle \<Rightarrow> bool" where
  "allocates_bucket s s' h \<longleftrightarrow>
     issues s s' h \<and> transactions s' = transactions s \<and>
     dom (buckets s') = insert h (dom (buckets s)) \<and> cursors s' = cursors s \<and>
     cursorsByBucket s' = cursorsByBucket s \<and>
     (\<exists>t. transactions s t \<noteq> None \<and>
          bucketsByTx s' = (bucketsByTx s)(t \<mapsto>
            (case bucketsByTx s t of Some bs \<Rightarrow> bs @ [h] | None \<Rightarrow> [h])))"

definition allocates_cursor :: "('w, 'tx, 'b, 'c) session \<Rightarrow> ('w, 'tx, 'b, 'c) session \<Rightarrow> handle \<Rightarrow> bool" where
  "allocates_cursor s s' h \<longleftrightarrow>
     issues s s' h \<and> transactions s' = transactions s \<and> buckets s' = buckets s \<and>
     dom (cursors s') = insert h (dom (cursors s)) \<and>
     bucketsByTx s' = bucketsByTx s \<and>
     (\<exists>b. buckets s b \<noteq> None \<and>
          cursorsByBucket s' = (cursorsByBucket s)(b \<mapsto>
            (case cursorsByBucket s b of Some cs \<Rightarrow> cs @ [h] | None \<Rightarrow> [h])))"

definition effect :: "('w, 'tx, 'b, 'c) session \<Rightarrow> ('w, 'tx, 'b, 'c) session \<Rightarrow> bool" where
  "effect s s' \<longleftrightarrow>
     keeps s s' \<or> allocates_tx s s' (lastHandle s + 1) \<or>
     allocates_bucket s s' (lastHandle s + 1) \<or> allocates_cursor s s' (lastHandle s + 1)"

text \<open>
  The handles in the three registries and in the two ownership indices. In a
  well-formed session (\<open>wf\<close>) the handles issued are \<open>1, 2, \<dots>\<close> up to \<^verbatim>\<open>lastHandle\<close>, as
  64-bit values, and every handle in a registry or an index was issued; in a
  \<open>separate\<close> one no handle is in two registries.
\<close>

definition registered :: "('w, 'tx, 'b, 'c) session \<Rightarrow> handle set" where
  "registered s = dom (transactions s) \<union> dom (buckets s) \<union> dom (cursors s)"

definition indexed :: "('w, 'tx, 'b, 'c) session \<Rightarrow> handle set" where
  "indexed s = (\<Union>bs \<in> ran (bucketsByTx s). set bs) \<union> (\<Union>cs \<in> ran (cursorsByBucket s). set cs)"

definition wf :: "('w, 'tx, 'b, 'c) session \<Rightarrow> bool" where
  "wf s \<longleftrightarrow>
     lastHandle s = of_nat (length (issued s)) \<and>
     issued s = map of_nat [1..<Suc (length (issued s))] \<and>
     registered s \<subseteq> set (issued s) \<and> indexed s \<subseteq> set (issued s)"

definition separate :: "('w, 'tx, 'b, 'c) session \<Rightarrow> bool" where
  "separate s \<longleftrightarrow>
     dom (transactions s) \<inter> dom (buckets s) = {} \<and>
     dom (transactions s) \<inter> dom (cursors s) = {} \<and>
     dom (buckets s) \<inter> dom (cursors s) = {}"

text \<open>
  A \<^verbatim>\<open>Bucket\<close> or \<^verbatim>\<open>Cursor\<close> command returns a handle, and an \<^verbatim>\<open>EndTx\<close> command succeeds,
  when the round goes on with \<^verbatim>\<open>lastError\<close> nil (and the handle as the response).
\<close>

definition Bucket_returns :: "('w, 'tx, 'b, 'c) env \<Rightarrow> ('w, 'tx, 'b, 'c) session \<Rightarrow> handle
    \<Rightarrow> byteslice \<Rightarrow> wire list \<Rightarrow> handle \<Rightarrow> ('w, 'tx, 'b, 'c) session \<Rightarrow> bool" where
  "Bucket_returns env s t name rest b s' \<longleftrightarrow>
     one_command env (WUint 4 # WUint t # WBytes name # rest) s = Cont rest s' \<and>
     lastError s' = None \<and> out s' = out s @ [WUint b]"

definition Cursor_returns :: "('w, 'tx, 'b, 'c) env \<Rightarrow> ('w, 'tx, 'b, 'c) session \<Rightarrow> handle
    \<Rightarrow> wire list \<Rightarrow> handle \<Rightarrow> ('w, 'tx, 'b, 'c) session \<Rightarrow> bool" where
  "Cursor_returns env s b rest c s' \<longleftrightarrow>
     one_command env (WUint 6 # WUint b # rest) s = Cont rest s' \<and>
     lastError s' = None \<and> out s' = out s @ [WUint c]"

definition EndTx_succeeds :: "('w, 'tx, 'b, 'c) env \<Rightarrow> ('w, 'tx, 'b, 'c) session \<Rightarrow> handle
    \<Rightarrow> wire list \<Rightarrow> ('w, 'tx, 'b, 'c) session \<Rightarrow> bool" where
  "EndTx_succeeds env s t rest s' \<longleftrightarrow>
     one_command env (WUint 3 # WUint t # rest) s = Cont rest s' \<and> lastError s' = None"

text \<open>
  For the proofs about ownership. A handle is in the index of a transaction (of a
  bucket). A round is \<open>quiet\<close> when it leaves the buckets, both indices and the set of
  cursor handles as they are; it \<open>ends\<close> a transaction when the buckets, the cursors and
  the indices are those that the removal loop of \<^verbatim>\<open>CmdEndTx\<close> leaves. In a \<open>tidy\<close> session
  only a registered bucket has an entry in \<^verbatim>\<open>cursorsByBucket\<close>.
\<close>

definition indexed_bucket :: "('w, 'tx, 'b, 'c) session \<Rightarrow> handle \<Rightarrow> handle \<Rightarrow> bool" where
  "indexed_bucket s t b = (case bucketsByTx s t of None \<Rightarrow> False | Some bs \<Rightarrow> b \<in> set bs)"

definition indexed_cursor :: "('w, 'tx, 'b, 'c) session \<Rightarrow> handle \<Rightarrow> handle \<Rightarrow> bool" where
  "indexed_cursor s b c = (case cursorsByBucket s b of None \<Rightarrow> False | Some cs \<Rightarrow> c \<in> set cs)"

definition quiet :: "('w, 'tx, 'b, 'c) session \<Rightarrow> ('w, 'tx, 'b, 'c) session \<Rightarrow> bool" where
  "quiet s s' \<longleftrightarrow>
     buckets s' = buckets s \<and> bucketsByTx s' = bucketsByTx s \<and>
     cursorsByBucket s' = cursorsByBucket s \<and> dom (cursors s') = dom (cursors s)"

definition ends :: "('w, 'tx, 'b, 'c) session \<Rightarrow> ('w, 'tx, 'b, 'c) session \<Rightarrow> handle \<Rightarrow> bool" where
  "ends s s' t \<longleftrightarrow>
     buckets s' = buckets (remove_buckets t s) \<and>
     bucketsByTx s' = bucketsByTx (remove_buckets t s) \<and>
     cursors s' = cursors (remove_buckets t s) \<and>
     cursorsByBucket s' = cursorsByBucket (remove_buckets t s)"

definition handles_step :: "('w, 'tx, 'b, 'c) session \<Rightarrow> ('w, 'tx, 'b, 'c) session \<Rightarrow> bool" where
  "handles_step s s' \<longleftrightarrow>
     quiet s s' \<or> (\<exists>t. ends s s' t) \<or>
     allocates_bucket s s' (lastHandle s + 1) \<or> allocates_cursor s s' (lastHandle s + 1)"

definition tidy :: "('w, 'tx, 'b, 'c) session \<Rightarrow> bool" where
  "tidy s \<longleftrightarrow> (\<forall>b. cursorsByBucket s b \<noteq> None \<longrightarrow> buckets s b \<noteq> None)"

text \<open>
  The session \<open>demo_session\<close> after \<^verbatim>\<open>EndTx(1)\<close>, and an input that makes the handle counter
  wrap around: handles 1, 2, 3 for a transaction, its bucket and a cursor, \<^verbatim>\<open>EndTx(1)\<close>,
  a transaction 4, then \<open>2 ^ 64 - 2\<close> times \<^verbatim>\<open>Bucket(4, "data")\<close>, then \<^verbatim>\<open>Get(2, "a")\<close>.
\<close>

definition ended_session :: "(unit, unit, pairs, pairs \<times> pairs) session" where
  "ended_session = demo_session\<lparr>transactions := Map.empty, buckets := Map.empty,
     bucketsByTx := Map.empty, cursors := Map.empty, cursorsByBucket := Map.empty\<rparr>"

definition wrap_input :: "wire list" where
  "wrap_input =
     [WUint 2, WUint 4, WUint 1, WBytes (Some [100, 97, 116, 97]), WUint 6, WUint 2,
      WUint 3, WUint 1, WUint 2]
     @ concat (replicate (2 ^ 64 - 2) [WUint 4, WUint 4, WBytes (Some [100, 97, 116, 97])])
     @ [WUint 5, WUint 2, WBytes (Some [97])]"

text \<open>
  The sessions on the way to \<open>demo_session\<close>: after \<^verbatim>\<open>BeginTx\<close>, after \<^verbatim>\<open>Bucket(1, "data")\<close>
  and after \<^verbatim>\<open>Cursor(2)\<close>; and \<open>ended_session\<close> after one \<^verbatim>\<open>Version\<close> command.
\<close>

definition began_session :: "(unit, unit, pairs, pairs \<times> pairs) session" where
  "began_session = demo_session\<lparr>lastHandle := 1, buckets := Map.empty,
     bucketsByTx := Map.empty, cursors := Map.empty, cursorsByBucket := Map.empty,
     out := [WUint 1], issued := [1]\<rparr>"

definition opened_session :: "(unit, unit, pairs, pairs \<times> pairs) session" where
  "opened_session = demo_session\<lparr>lastHandle := 2, cursors := Map.empty,
     cursorsByBucket := Map.empty, out := [WUint 1, WUint 2], issued := [1, 2]\<rparr>"

definition cursor_session :: "(unit, unit, pairs, pairs \<times> pairs) session" where
  "cursor_session = demo_session\<lparr>cursors := [3 \<mapsto> (demo_items, [])],
     out := [WUint 1, WUint 2, WUint 3]\<rparr>"

definition final_session :: "(unit, unit, pairs, pairs \<times> pairs) session" where
  "final_session = ended_session\<lparr>out := out ended_session @ [WUint Version]\<rparr>"

section \<open>Properties\<close>

subsection \<open>Running the loop on concrete input\<close>

lemma next_loop_zero: "next_loop env 0 cursor written = (None, cursor, written)"
  by (simp add: next_loop.simps)

lemma one_command_tag:
  "c \<le> 255 \<Longrightarrow> one_command env (WUint c # inp) s =
     (case dispatch env (ucast c) inp s of
        (inp', s', Some e) \<Rightarrow> Halt (Some e) s'
      | (inp', s', None) \<Rightarrow> Cont inp' s')"
  by (simp add: one_command_def)

lemma Server_loop_Cont:
  "one_command env inp s = Cont inp' s' \<Longrightarrow> Server_loop env inp s = Server_loop env inp' s'"
  by (subst Server_loop.simps) simp

lemma Server_loop_Halt:
  "one_command env inp s = Halt r s' \<Longrightarrow> Server_loop env inp s = (r, s')"
  by (subst Server_loop.simps) simp

lemma Server_loop_Nil: "Server_loop env [] s = (None, s)"
  by (rule Server_loop_Halt) (simp add: one_command_def)

lemma after_rounds_numeral:
  "after_rounds env (numeral k) inp s =
     (case one_command env inp s of
        Halt r s' \<Rightarrow> None
      | Cont inp' s' \<Rightarrow> after_rounds env (pred_numeral k) inp' s')"
  by (simp add: numeral_eq_Suc)

lemma after_rounds_1:
  "after_rounds env 1 inp s =
     (case one_command env inp s of
        Halt r s' \<Rightarrow> None
      | Cont inp' s' \<Rightarrow> Some (inp', s'))"
  by (simp split: round.splits)

lemma demo_session_reached:
  "after_rounds demo_env 4 (demo_input @ rest) (init ()) = Some (rest, demo_session)"
  by (simp add: after_rounds_numeral after_rounds_1 demo_input_def Let_def one_command_tag dispatch_def Cmd_defs do_BeginTx_def
      do_Bucket_def do_Cursor_def do_Seek_def Encode_def Encode2_def encode_def demo_env_def init_def
      demo_session_def demo_Seek_def demo_items_def)

lemma demo_write_ok: "write_ok demo_env written v"
  by (simp add: demo_env_def)

subsection \<open>The loop of CmdNext\<close>

lemma cursor_after_Suc:
  "cursor_after env c (Suc k) = cursor_after env (snd (cursor_Next env c)) k"
  by (simp only: cursor_after_def funpow_Suc_right o_apply)

lemma pair_no_Suc: "pair_no env c (Suc i) = pair_no env (snd (cursor_Next env c)) i"
  by (simp add: pair_no_def cursor_after_Suc)

lemma emitted_Suc:
  "emitted env c (Suc k) = emit (pair_no env c 0) @ emitted env (snd (cursor_Next env c)) k"
proof -
  have "[0..<Suc k] = 0 # map Suc [0..<k]"
    by (simp add: upt_conv_Cons map_Suc_upt del: upt_Suc)
  then show ?thesis
    by (simp add: emitted_def pair_no_Suc comp_def del: upt_Suc)
qed

lemma next_loop_emits:
  assumes wok: "\<And>written v. write_ok env written v"
  shows "unat n = m \<Longrightarrow> 0 < m \<Longrightarrow>
    \<exists>k. 1 \<le> k \<and> k \<le> m \<and>
        next_loop env n c written = (None, cursor_after env c k, written @ emitted env c k) \<and>
        (\<forall>i. Suc i < k \<longrightarrow> fst (pair_no env c i) \<noteq> None) \<and>
        (k < m \<longrightarrow> fst (pair_no env c (k - 1)) = None)"
proof (induction m arbitrary: n c written)
  case 0
  then show ?case by simp
next
  case (Suc m)
  obtain key val c' where nx: "cursor_Next env c = ((key, val), c')"
    by (metis prod.exhaust)
  have n0: "0 < n" using Suc.prems by (simp add: word_neq_0_conv [symmetric] unat_gt_0 [symmetric])
  have p0: "pair_no env c 0 = (key, val)" by (simp add: pair_no_def cursor_after_def nx)
  have step: "next_loop env n c written =
      (if key = None then (None, c', written @ [WBytes key, WBytes val])
       else next_loop env (n - 1) c' (written @ [WBytes key, WBytes val]))"
    using n0 wok by (subst next_loop.simps) (simp add: nx encode_def)
  show ?case
  proof (cases "key = None")
    case True
    have "next_loop env n c written = (None, cursor_after env c 1, written @ emitted env c 1)"
      using True step by (simp add: cursor_after_def emitted_def emit_def p0 nx)
    then show ?thesis using True p0
      by (intro exI [of _ 1]) simp
  next
    case False
    show ?thesis
    proof (cases m)
      case 0
      then have "unat (n - 1) = 0" using Suc.prems n0
        by (simp add: unat_minus_one word_neq_0_conv [symmetric])
      then have "n - 1 = 0" by (simp add: unat_eq_0)
      then have "next_loop env n c written = (None, cursor_after env c 1, written @ emitted env c 1)"
        using False step by (simp add: cursor_after_def emitted_def emit_def p0 nx next_loop.simps)
      then show ?thesis using 0
        by (intro exI [of _ 1]) simp
    next
      case (Suc m')
      have un: "unat (n - 1) = m" using Suc.prems n0
        by (simp add: unat_minus_one word_neq_0_conv [symmetric])
      from Suc.IH [OF un, of c' "written @ [WBytes key, WBytes val]"] Suc
      obtain k where k: "1 \<le> k" "k \<le> m"
        "next_loop env (n - 1) c' (written @ [WBytes key, WBytes val])
           = (None, cursor_after env c' k, (written @ [WBytes key, WBytes val]) @ emitted env c' k)"
        "\<forall>i. Suc i < k \<longrightarrow> fst (pair_no env c' i) \<noteq> None"
        "k < m \<longrightarrow> fst (pair_no env c' (k - 1)) = None"
        by auto
      have c'_eq: "c' = snd (cursor_Next env c)" by (simp add: nx)
      have "next_loop env n c written
          = next_loop env (n - 1) c' (written @ [WBytes key, WBytes val])"
        using False step by auto
      then have "next_loop env n c written
          = (None, cursor_after env c (Suc k), written @ emitted env c (Suc k))"
        using k(3) by (simp add: cursor_after_Suc emitted_Suc p0 emit_def c'_eq [symmetric])
      moreover have "\<forall>i. Suc i < Suc k \<longrightarrow> fst (pair_no env c i) \<noteq> None"
      proof (intro allI impI)
        fix i assume "Suc i < Suc k"
        show "fst (pair_no env c i) \<noteq> None"
        proof (cases i)
          case 0
          then show ?thesis using False p0 by simp
        next
          case (Suc j)
          then show ?thesis using k(4) \<open>Suc i < Suc k\<close> by (simp add: pair_no_Suc c'_eq [symmetric])
        qed
      qed
      moreover have "Suc k < Suc m \<longrightarrow> fst (pair_no env c (Suc k - 1)) = None"
        using k(1) k(5) by (cases k) (auto simp: pair_no_Suc c'_eq [symmetric])
      ultimately show ?thesis using k(1) k(2)
        by (intro exI [of _ "Suc k"]) simp
    qed
  qed
qed

text \<open>
  C5. \<^verbatim>\<open>Next(cursorHandle, n)\<close> on a known cursor with \<open>n > 0\<close>, the writer not failing:
  the server sends the pairs that \<open>k\<close> consecutive calls of \<^verbatim>\<open>cursor.Next()\<close> return, for
  some \<open>1 \<le> k \<le> n\<close>, and leaves the cursor advanced by \<open>k\<close>; every pair before the last
  has a key; when fewer than \<open>n\<close> pairs are sent, the last one sent has the nil key (the
  terminator); \<^verbatim>\<open>lastError\<close> is nil and the session goes on with the next command.
\<close>

theorem Next_emits_pairs:
  assumes "cursors s cursorHandle = Some c" and "0 < n"
    and wok: "\<And>written v. write_ok env written v"
  shows "\<exists>k. 1 \<le> k \<and> k \<le> unat n \<and>
     one_command env (WUint 8 # WUint cursorHandle # WUint n # rest) s
       = Cont rest (s\<lparr>cursors := (cursors s)(cursorHandle \<mapsto> cursor_after env c k),
                       out := out s @ emitted env c k, lastError := None\<rparr>) \<and>
     (\<forall>i. Suc i < k \<longrightarrow> fst (pair_no env c i) \<noteq> None) \<and>
     (k < unat n \<longrightarrow> fst (pair_no env c (k - 1)) = None)"
proof -
  have "0 < unat n" using assms(2) by (simp add: word_neq_0_conv [symmetric] unat_gt_0)
  from next_loop_emits [OF wok refl this, of c "out s"]
  obtain k where k: "1 \<le> k" "k \<le> unat n"
    "next_loop env n c (out s) = (None, cursor_after env c k, out s @ emitted env c k)"
    "\<forall>i. Suc i < k \<longrightarrow> fst (pair_no env c i) \<noteq> None"
    "k < unat n \<longrightarrow> fst (pair_no env c (k - 1)) = None"
    by blast
  have "do_Next env (WUint cursorHandle # WUint n # rest) s
      = (rest, s\<lparr>cursors := (cursors s)(cursorHandle \<mapsto> cursor_after env c k),
                  out := out s @ emitted env c k, lastError := None\<rparr>, None)"
    using assms(1) k(3) by (simp add: do_Next_def)
  then have "one_command env (WUint 8 # WUint cursorHandle # WUint n # rest) s
      = Cont rest (s\<lparr>cursors := (cursors s)(cursorHandle \<mapsto> cursor_after env c k),
                      out := out s @ emitted env c k, lastError := None\<rparr>)"
    by (simp add: one_command_tag dispatch_def Cmd_defs)
  with k show ?thesis by blast
qed

theorem Next_emits_pairs_witness:
  "cursors demo_session 3 = Some (demo_items, demo_items) \<and> (0 :: 64 word) < 5 \<and>
   (\<exists>k. 1 \<le> k \<and> k \<le> unat (5 :: 64 word) \<and>
     one_command demo_env [WUint 8, WUint 3, WUint 5] demo_session
       = Cont [] (demo_session\<lparr>cursors := (cursors demo_session)(3 \<mapsto>
                     cursor_after demo_env (demo_items, demo_items) k),
                   out := out demo_session @ emitted demo_env (demo_items, demo_items) k,
                   lastError := None\<rparr>) \<and>
     (\<forall>i. Suc i < k \<longrightarrow> fst (pair_no demo_env (demo_items, demo_items) i) \<noteq> None) \<and>
     (k < unat (5 :: 64 word) \<longrightarrow> fst (pair_no demo_env (demo_items, demo_items) (k - 1)) = None)) \<and>
   one_command demo_env [WUint 8, WUint 3, WUint 5] demo_session
     = Cont [] (demo_session\<lparr>cursors := [3 \<mapsto> (demo_items, [])],
                 out := out demo_session @ [WBytes (Some [98]), WBytes (Some [50]),
                   WBytes (Some [99]), WBytes (Some [51]), WBytes None, WBytes None],
                 lastError := None\<rparr>)"
proof -
  have a: "cursors demo_session 3 = Some (demo_items, demo_items)"
    by (simp add: demo_session_def)
  have b: "(0 :: 64 word) < 5" by simp
  have c: "one_command demo_env [WUint 8, WUint 3, WUint 5] demo_session
     = Cont [] (demo_session\<lparr>cursors := [3 \<mapsto> (demo_items, [])],
                 out := out demo_session @ [WBytes (Some [98]), WBytes (Some [50]),
                   WBytes (Some [99]), WBytes (Some [51]), WBytes None, WBytes None],
                 lastError := None\<rparr>)"
    by (simp add: one_command_tag dispatch_def Cmd_defs do_Next_def demo_session_def
        next_loop.simps demo_env_def demo_Next_def demo_items_def encode_def)
  show ?thesis
    using Next_emits_pairs [OF a b demo_write_ok, of "[]"] a b c by simp
qed

text \<open>
  C8. \<^verbatim>\<open>Next(cursorHandle, 0)\<close> on a known cursor writes nothing and leaves the cursor
  as it is: the session changes in \<^verbatim>\<open>lastError\<close> only, which becomes nil.
\<close>

theorem Next_zero:
  assumes "cursors s cursorHandle = Some cursor"
  shows "one_command env (WUint 8 # WUint cursorHandle # WUint 0 # rest) s
           = Cont rest (s\<lparr>lastError := None\<rparr>)"
proof -
  have "(cursors s)(cursorHandle \<mapsto> cursor) = cursors s"
    using assms by (simp add: map_upd_triv)
  then have "do_Next env (WUint cursorHandle # WUint 0 # rest) s
      = (rest, s\<lparr>lastError := None\<rparr>, None)"
    using assms by (simp add: do_Next_def next_loop_zero)
  then show ?thesis
    by (simp add: one_command_tag dispatch_def Cmd_defs)
qed

theorem Next_zero_witness:
  "cursors demo_session 3 = Some (demo_items, demo_items) \<and>
   one_command demo_env [WUint 8, WUint 3, WUint 0] demo_session
     = Cont [] (demo_session\<lparr>lastError := None\<rparr>)"
  using Next_zero [of demo_session 3 "(demo_items, demo_items)" demo_env "[]"]
  by (simp add: demo_session_def)

subsection \<open>The client\<close>

text \<open>
  C7. \<^verbatim>\<open>View\<close>, the writer not failing. When the server answers \<^verbatim>\<open>BeginTx\<close> with handle 0
  and \<^verbatim>\<open>LastError\<close> with a string, \<^verbatim>\<open>View\<close> has sent \<^verbatim>\<open>BeginTx\<close> and \<^verbatim>\<open>LastError\<close>, returns
  that string as its error and has not run the closure (the caller's state is
  unchanged). When the server answers with a handle other than 0, \<^verbatim>\<open>View\<close> sends
  \<^verbatim>\<open>BeginTx\<close>, runs the closure on the wrapper of the handle, then sends \<^verbatim>\<open>EndTx\<close> and the
  handle whatever the closure returned, and returns the closure's error.
\<close>

theorem View_steps:
  assumes "\<And>written v. wok written v"
  shows "(db_in db = WUint 0 # WText msg # rest \<longrightarrow>
            View wok f db
              = (Some (Message msg),
                 db\<lparr>db_in := rest, db_out := db_out db @ [WUint 2, WUint 1]\<rparr>)) \<and>
         (h \<noteq> 0 \<and> db_in db = WUint h # rest' \<longrightarrow>
            View wok f db
              = (case f \<lparr>txHandle = h\<rparr> (db\<lparr>db_in := rest', db_out := db_out db @ [WUint 2]\<rparr>) of
                   (opErr, db') \<Rightarrow> (opErr, db'\<lparr>db_out := db_out db' @ [WUint 3, WUint h]\<rparr>)))"
  using assms
  by (auto simp: View_def encode_def Cmd_defs split: prod.splits)

theorem View_steps_witness:
  "View (\<lambda>written v. True) demo_closure
       \<lparr>db_in = [WUint 0, WText ''bucket not found''], db_out = [], app = 0\<rparr>
     = (Some (Message ''bucket not found''),
        \<lparr>db_in = [], db_out = [WUint 2, WUint 1], app = 0\<rparr>) \<and>
   View (\<lambda>written v. True) demo_closure \<lparr>db_in = [WUint 7], db_out = [], app = 0\<rparr>
     = (Some (Message ''stop''),
        \<lparr>db_in = [], db_out = [WUint 2, WUint 3, WUint 7], app = 1\<rparr>)"
  using View_steps [of "\<lambda>written v. True"
      "\<lparr>db_in = [WUint 0, WText ''bucket not found''], db_out = [], app = 0\<rparr>"
      "''bucket not found''" "[]" demo_closure 0 "[]"]
    View_steps [of "\<lambda>written v. True" "\<lparr>db_in = [WUint 7], db_out = [], app = 0\<rparr>"
      "[]" "[]" demo_closure 7 "[]"]
  by (simp add: demo_closure_def)

text \<open>
  C10. \<^verbatim>\<open>Tx.Bucket\<close> returns nil for every transaction wrapper and every name, and
  leaves the connection as it is: it writes no command and reads no answer.
\<close>

theorem Tx_Bucket_nil: "Tx_Bucket tx name db = (None, db)"
  by (simp add: Tx_Bucket_def)

subsection \<open>The shape of the responses\<close>

lemma Encode_ok:
  "(\<And>written v. write_ok env written v) \<Longrightarrow> Encode env v s = (s\<lparr>out := out s @ [v]\<rparr>, None)"
  by (simp add: Encode_def encode_def)

lemma Encode2_ok:
  "(\<And>written v. write_ok env written v) \<Longrightarrow>
     Encode2 env k v s = (s\<lparr>out := out s @ [k, v]\<rparr>, None)"
  by (simp add: Encode2_def Encode_ok)

lemma placeholder_shapes:
  assumes wok: "\<And>written v. write_ok env written v"
  shows "shape env (WUint 4 # WUint th # WBytes name # rest) s = [KUint]"
    and "shape env (WUint 5 # WUint bh # WBytes key # rest) s = [KBytes]"
    and "shape env (WUint 6 # WUint bh # rest) s = [KUint]"
    and "shape env (WUint 7 # WUint ch # WBytes key # rest) s = [KBytes, KBytes]"
    and "shape env (WUint 2 # rest) s = [KUint]"
    and "shape env (WUint 0 # rest) s = [KUint]"
    and "shape env (WUint 1 # rest) s = [KText]"
  by (simp_all add: shape_def reply_def one_command_tag dispatch_def Cmd_defs do_Bucket_def
      do_Get_def do_Cursor_def do_Seek_def do_BeginTx_def do_Version_def do_LastError_def
      Encode_ok [OF wok] Encode2_ok [OF wok]
      Let_def split: option.splits prod.splits sum.splits)

text \<open>
  C1. The response has the same shape whether the command fails or succeeds for
  \<^verbatim>\<open>Version\<close>, \<^verbatim>\<open>LastError\<close>, \<^verbatim>\<open>BeginTx\<close>, \<^verbatim>\<open>Bucket\<close>, \<^verbatim>\<open>Get\<close>, \<^verbatim>\<open>Cursor\<close> and \<^verbatim>\<open>Seek\<close> (lemma
  \<open>placeholder_shapes\<close>, the writer not failing), but not for \<^verbatim>\<open>Next\<close>: in the session \<open>demo_session\<close>,
  \<^verbatim>\<open>Next(3, 1)\<close> on the known cursor 3 writes a key and a value, and \<^verbatim>\<open>Next(9999, 1)\<close>
  on an unknown cursor writes nothing, where \<^verbatim>\<open>Seek\<close> writes two nil byte strings.
\<close>

theorem Next_unknown_cursor_shape:
  "shape demo_env [WUint 8, WUint 3, WUint 1] demo_session = [KBytes, KBytes] \<and>
   shape demo_env [WUint 8, WUint 9999, WUint 1] demo_session = [] \<and>
   shape demo_env [WUint 7, WUint 3, WBytes (Some [])] demo_session = [KBytes, KBytes] \<and>
   shape demo_env [WUint 7, WUint 9999, WBytes (Some [])] demo_session = [KBytes, KBytes]"
  by (simp add: shape_def reply_def one_command_tag dispatch_def Cmd_defs do_Next_def do_Seek_def
      demo_session_def next_loop.simps demo_env_def demo_Next_def demo_Seek_def demo_items_def
      encode_def Encode2_def Encode_def Let_def)

subsection \<open>Decode errors\<close>

text \<open>
  A decode error on the command, on the first argument of any command that has one,
  or on the byte string of \<^verbatim>\<open>Bucket\<close>, \<^verbatim>\<open>Get\<close> and \<^verbatim>\<open>Seek\<close> ends the loop with that
  error; \<^verbatim>\<open>Server\<close> then returns it after the cleanup, which closes the connection.
\<close>

lemma first_argument_decode_fatal:
  assumes "decode_uint64 r = (Inl e, r')"
    and "c = 3 \<or> c = 4 \<or> c = 5 \<or> c = 6 \<or> c = 7 \<or> c = 8"
  shows "one_command env (WUint c # r) s = Halt (Some e) s"
  using assms
  by (auto simp: one_command_tag dispatch_def Cmd_defs do_EndTx_def do_Bucket_def do_Get_def
      do_Cursor_def do_Seek_def do_Next_def)

lemma second_argument_decode_fatal:
  assumes "decode_bytes r = (Inl e, r')" and "c = 4 \<or> c = 5 \<or> c = 7"
  shows "one_command env (WUint c # WUint h # r) s = Halt (Some e) s"
  using assms
  by (auto simp: one_command_tag dispatch_def Cmd_defs do_Bucket_def do_Get_def do_Seek_def)

lemma command_decode_fatal:
  "decode_Command inp = (Inl e, r) \<Longrightarrow> e \<noteq> EOF \<Longrightarrow> one_command env inp s = Halt (Some e) s"
  by (simp add: one_command_def)

lemma Halt_ends_Server:
  "one_command env inp (init db) = Halt r s \<Longrightarrow> Server env db inp = (r, cleanup env s)"
  by (simp add: Server_def Server_loop_Halt)

lemma cleanup_closes: "closed (snd (Server env db inp))"
  by (simp add: Server_def cleanup_def split: prod.splits)

text \<open>
  C2. A decode error on \<^verbatim>\<open>numberOfKeys\<close>, the second argument of \<^verbatim>\<open>Next\<close>, does not
  end the session, unlike the decode errors above. On the input
  \<^verbatim>\<open>Next, 3\<close> that ends before \<^verbatim>\<open>numberOfKeys\<close>, \<^verbatim>\<open>Server\<close> returns nil, where
  \<^verbatim>\<open>Seek, 3\<close> without its key returns the decode error. On \<^verbatim>\<open>Next, 3\<close> followed by a
  text value and \<^verbatim>\<open>Version\<close>, \<^verbatim>\<open>Server\<close> returns nil after answering \<^verbatim>\<open>Version\<close>,
  where the same input after \<^verbatim>\<open>Seek, 3\<close> ends the session with the decode error.
\<close>

theorem Next_numberOfKeys_not_fatal:
  "fst (Server demo_env () [WUint 8, WUint 3]) = None \<and>
   fst (Server demo_env () [WUint 7, WUint 3]) = Some EOF \<and>
   fst (Server demo_env () [WUint 8, WUint 3, WText ''x'', WUint 0]) = None \<and>
   out (snd (Server demo_env () [WUint 8, WUint 3, WText ''x'', WUint 0])) = [WUint 1] \<and>
   fst (Server demo_env () [WUint 7, WUint 3, WText ''x'', WUint 0]) = Some DecodeFailure"
  by (simp add: Server_def Server_loop.simps one_command_def dispatch_def Cmd_defs do_Next_def
      do_Seek_def do_Version_def init_def cleanup_def Encode_def encode_def demo_env_def Version_def)

subsection \<open>The value of lastError\<close>

lemma Encode_lastError: "Encode env v s = (s', r) \<Longrightarrow> lastError s' = lastError s"
  by (auto simp: Encode_def split: sum.splits)

lemma Encode2_lastError: "Encode2 env k v s = (s', r) \<Longrightarrow> lastError s' = lastError s"
  by (auto simp: Encode2_def split: prod.splits option.splits dest!: Encode_lastError)

lemma one_command_Cont:
  "c \<le> 255 \<Longrightarrow> one_command env (WUint c # inp) s = Cont inp' s' \<longleftrightarrow>
     dispatch env (ucast c) inp s = (inp', s', None)"
  by (auto simp: one_command_tag split: prod.splits option.splits)

lemma Version_round:
  "one_command env (WUint 0 # r) s = Cont inp' s' \<Longrightarrow> inp' = r \<and> lastError s' = lastError s"
  by (auto simp: one_command_Cont dispatch_def Cmd_defs do_Version_def dest: Encode_lastError)

lemma LastError_round:
  "one_command env (WUint 1 # r) s = Cont inp' s' \<Longrightarrow> inp' = r \<and> lastError s' = lastError s"
  by (auto simp: one_command_Cont dispatch_def Cmd_defs do_LastError_def dest: Encode_lastError)

lemma EndTx_round:
  "one_command env (WUint 3 # WUint t # r) s = Cont inp' s' \<Longrightarrow>
     lastError s' = (if transactions s t = None then Some ''transaction not found'' else None)"
  by (auto simp: one_command_Cont dispatch_def Cmd_defs do_EndTx_def Let_def
      split: option.splits prod.splits)

lemma Bucket_round:
  "one_command env (WUint 4 # WUint t # WBytes name # r) s = Cont inp' s' \<Longrightarrow>
     lastError s' =
       (case transactions s t of
          None \<Rightarrow> Some ''transaction not found''
        | Some tx \<Rightarrow> (case tx_Bucket env tx name of
                       None \<Rightarrow> Some ''bucket not found''
                     | Some bucket \<Rightarrow> None))"
  by (auto simp: one_command_Cont dispatch_def Cmd_defs do_Bucket_def Let_def
      split: option.splits prod.splits dest!: Encode_lastError)

lemma Get_round:
  "one_command env (WUint 5 # WUint b # WBytes key # r) s = Cont inp' s' \<Longrightarrow>
     lastError s' = (if buckets s b = None then Some ''bucket not found'' else None)"
  by (auto simp: one_command_Cont dispatch_def Cmd_defs do_Get_def
      split: option.splits prod.splits dest!: Encode_lastError)

lemma Cursor_round:
  "one_command env (WUint 6 # WUint b # r) s = Cont inp' s' \<Longrightarrow>
     lastError s' = (if buckets s b = None then Some ''bucket not found'' else None)"
  by (auto simp: one_command_Cont dispatch_def Cmd_defs do_Cursor_def Let_def
      split: option.splits prod.splits dest!: Encode_lastError)

lemma Seek_round:
  "one_command env (WUint 7 # WUint c # WBytes key # r) s = Cont inp' s' \<Longrightarrow>
     lastError s' = (if cursors s c = None then Some ''cursor not found'' else None)"
  by (auto simp: one_command_Cont dispatch_def Cmd_defs do_Seek_def
      split: option.splits prod.splits dest!: Encode2_lastError)

lemma Next_round:
  "one_command env (WUint 8 # WUint c # r) s = Cont inp' s' \<Longrightarrow>
     lastError s' = (if cursors s c = None then Some ''cursor not found'' else None)"
  by (auto simp: one_command_Cont dispatch_def Cmd_defs do_Next_def Let_def
      split: option.splits prod.splits)

lemma probes_keep_lastError:
  "set vs \<subseteq> {WUint 0, WUint 1} \<Longrightarrow>
   after_rounds env (length vs) (vs @ rest) s = Some (inp', s') \<Longrightarrow>
   inp' = rest \<and> lastError s' = lastError s"
proof (induction vs arbitrary: s)
  case Nil
  then show ?case by simp
next
  case (Cons v vs)
  from Cons.prems(2) obtain inp1 s1 where
    st: "one_command env (v # vs @ rest) s = Cont inp1 s1"
    and more: "after_rounds env (length vs) inp1 s1 = Some (inp', s')"
    by (auto split: round.splits)
  from Cons.prems(1) have "v = WUint 0 \<or> v = WUint 1" by simp
  with st have "inp1 = vs @ rest \<and> lastError s1 = lastError s"
    using Version_round LastError_round by blast
  with Cons.IH [of s1] Cons.prems(1) more show ?case by simp
qed

lemma next_loop_ok:
  assumes wok: "\<And>written v. write_ok env written v"
  shows "\<exists>cursor' written'. next_loop env n cursor written = (None, cursor', written')"
proof (cases "unat n = 0")
  case True
  then have "n = 0" by (simp add: unat_eq_0)
  then show ?thesis by (simp add: next_loop_zero)
next
  case False
  then have "0 < unat n" by simp
  from next_loop_emits [OF wok refl this, of cursor written] show ?thesis by blast
qed

lemma Version_goes_on:
  "(\<And>written v. write_ok env written v) \<Longrightarrow>
   \<exists>s'. one_command env (WUint 0 # r) s = Cont r s' \<and> lastError s' = lastError s"
  by (simp add: one_command_tag dispatch_def Cmd_defs do_Version_def Encode_ok)

lemma LastError_goes_on:
  "(\<And>written v. write_ok env written v) \<Longrightarrow>
   \<exists>s'. one_command env (WUint 1 # r) s = Cont r s' \<and> lastError s' = lastError s"
  by (simp add: one_command_tag dispatch_def Cmd_defs do_LastError_def Encode_ok)

lemma remove_bucket_frame:
  "lastError (remove_bucket x s) = lastError s \<and> world (remove_bucket x s) = world s \<and>
   out (remove_bucket x s) = out s"
  by (simp add: remove_bucket_def Let_def split: option.splits)

lemma fold_remove_bucket_frame:
  "lastError (fold remove_bucket bs s) = lastError s \<and>
   world (fold remove_bucket bs s) = world s \<and> out (fold remove_bucket bs s) = out s"
  by (induction bs arbitrary: s) (simp_all add: remove_bucket_frame)

lemma remove_buckets_frame:
  "lastError (remove_buckets t s) = lastError s \<and> world (remove_buckets t s) = world s \<and>
   out (remove_buckets t s) = out s"
  by (simp add: remove_buckets_def Let_def fold_remove_bucket_frame split: option.splits)

lemma EndTx_unknown:
  "transactions s t = None \<Longrightarrow>
   one_command env (WUint 3 # WUint t # r) s
     = Cont r (s\<lparr>lastError := Some ''transaction not found''\<rparr>)"
  by (simp add: one_command_tag dispatch_def Cmd_defs do_EndTx_def)

lemma EndTx_rolled_back:
  "transactions s t = Some tx \<Longrightarrow> tx_Rollback env tx (world s) = (None, w) \<Longrightarrow>
   \<exists>s'. one_command env (WUint 3 # WUint t # r) s = Cont r s' \<and> lastError s' = None"
  by (simp add: one_command_tag dispatch_def Cmd_defs do_EndTx_def Let_def remove_buckets_frame)

lemma EndTx_rollback_fails:
  "transactions s t = Some tx \<Longrightarrow> tx_Rollback env tx (world s) = (Some msg, w) \<Longrightarrow>
   \<exists>s'. one_command env (WUint 3 # WUint t # r) s = Halt (Some (RollbackFailure msg)) s' \<and>
        lastError s' = lastError s"
  by (simp add: one_command_tag dispatch_def Cmd_defs do_EndTx_def Let_def remove_buckets_frame)

lemma Bucket_goes_on:
  "(\<And>written v. write_ok env written v) \<Longrightarrow>
   \<exists>s'. one_command env (WUint 4 # WUint t # WBytes name # r) s = Cont r s' \<and>
        lastError s' =
          (case transactions s t of
             None \<Rightarrow> Some ''transaction not found''
           | Some tx \<Rightarrow> (case tx_Bucket env tx name of
                          None \<Rightarrow> Some ''bucket not found''
                        | Some bucket \<Rightarrow> None))"
  by (simp add: one_command_tag dispatch_def Cmd_defs do_Bucket_def Let_def Encode_ok
      split: option.splits)

lemma Get_goes_on:
  "(\<And>written v. write_ok env written v) \<Longrightarrow>
   \<exists>s'. one_command env (WUint 5 # WUint b # WBytes key # r) s = Cont r s' \<and>
        lastError s' = (if buckets s b = None then Some ''bucket not found'' else None)"
  by (auto simp: one_command_tag dispatch_def Cmd_defs do_Get_def Encode_ok split: option.splits)

lemma Cursor_goes_on:
  "(\<And>written v. write_ok env written v) \<Longrightarrow>
   \<exists>s'. one_command env (WUint 6 # WUint b # r) s = Cont r s' \<and>
        lastError s' = (if buckets s b = None then Some ''bucket not found'' else None)"
  by (auto simp: one_command_tag dispatch_def Cmd_defs do_Cursor_def Let_def Encode_ok
      split: option.splits)

lemma Seek_goes_on:
  "(\<And>written v. write_ok env written v) \<Longrightarrow>
   \<exists>s'. one_command env (WUint 7 # WUint c # WBytes key # r) s = Cont r s' \<and>
        lastError s' = (if cursors s c = None then Some ''cursor not found'' else None)"
  by (auto simp: one_command_tag dispatch_def Cmd_defs do_Seek_def Encode2_ok
      split: option.splits prod.splits)

lemma Next_goes_on:
  assumes wok: "\<And>written v. write_ok env written v"
  shows "\<exists>s'. one_command env (WUint 8 # WUint c # r) s = Cont (snd (decode_uint64 r)) s' \<and>
        lastError s' = (if cursors s c = None then Some ''cursor not found'' else None)"
proof (cases "cursors s c")
  case None
  then show ?thesis
    by (simp add: one_command_tag dispatch_def Cmd_defs do_Next_def Let_def split: prod.splits)
next
  case (Some cursor)
  obtain res r' where d: "decode_uint64 r = (res, r')" by (cases "decode_uint64 r")
  from next_loop_ok [OF wok, of "case res of Inl e \<Rightarrow> 0 | Inr n \<Rightarrow> n" cursor "out s"]
  obtain cursor' written' where
    "next_loop env (case res of Inl e \<Rightarrow> 0 | Inr n \<Rightarrow> n) cursor (out s) = (None, cursor', written')"
    by blast
  with Some d show ?thesis
    by (simp add: one_command_tag dispatch_def Cmd_defs do_Next_def Let_def)
qed

lemma probes_go_on:
  assumes wok: "\<And>written v. write_ok env written v"
  shows "set vs \<subseteq> {WUint 0, WUint 1} \<Longrightarrow>
     \<exists>s'. after_rounds env (length vs) (vs @ rest) s = Some (rest, s') \<and> lastError s' = lastError s"
proof (induction vs arbitrary: s)
  case Nil
  then show ?case by simp
next
  case (Cons v vs)
  from Cons.prems have "v = WUint 0 \<or> v = WUint 1" by simp
  then obtain s1 where s1: "one_command env (v # vs @ rest) s = Cont (vs @ rest) s1"
    "lastError s1 = lastError s"
    using Version_goes_on [OF wok, of "vs @ rest" s] LastError_goes_on [OF wok, of "vs @ rest" s]
    by blast
  from Cons.IH [of s1] Cons.prems obtain s' where
    "after_rounds env (length vs) (vs @ rest) s1 = Some (rest, s')" "lastError s' = lastError s1"
    by auto
  with s1 show ?case by simp
qed

text \<open>
  C6. What a command does to \<^verbatim>\<open>lastError\<close>. Whatever the writer does, a round that
  goes on leaves \<^verbatim>\<open>lastError\<close> as it was for \<^verbatim>\<open>Version\<close> and \<^verbatim>\<open>LastError\<close>, and for
  \<^verbatim>\<open>EndTx\<close>, \<^verbatim>\<open>Bucket\<close>, \<^verbatim>\<open>Get\<close>, \<^verbatim>\<open>Cursor\<close>, \<^verbatim>\<open>Seek\<close> and \<^verbatim>\<open>Next\<close> sets it to nil when
  the handle is known (and, for \<^verbatim>\<open>Bucket\<close>, the named bucket exists) and to the matching
  not-found error otherwise; a run of \<^verbatim>\<open>Version\<close> and \<^verbatim>\<open>LastError\<close> commands leaves it as
  it was. The rounds do go on: \<^verbatim>\<open>EndTx\<close> writes no response, so it goes on with
  \<^verbatim>\<open>transaction not found\<close> on an unknown handle and with nil when the rollback
  succeeds (when the rollback fails it ends the session and leaves \<^verbatim>\<open>lastError\<close> as it was);
  and when the writer never fails, each of \<^verbatim>\<open>Version\<close>, \<^verbatim>\<open>LastError\<close>, \<^verbatim>\<open>Bucket\<close>, \<^verbatim>\<open>Get\<close>,
  \<^verbatim>\<open>Cursor\<close>, \<^verbatim>\<open>Seek\<close> and \<^verbatim>\<open>Next\<close> goes on from every session, with \<^verbatim>\<open>lastError\<close> as
  said, and so does every run of \<^verbatim>\<open>Version\<close> and \<^verbatim>\<open>LastError\<close> commands.
\<close>

theorem lastError_outcome:
  "(one_command env inp s = Cont inp' s' \<longrightarrow>
      (\<forall>r. inp = WUint 0 # r \<longrightarrow> lastError s' = lastError s) \<and>
      (\<forall>r. inp = WUint 1 # r \<longrightarrow> lastError s' = lastError s) \<and>
      (\<forall>t r. inp = WUint 3 # WUint t # r \<longrightarrow>
         lastError s' = (if transactions s t = None then Some ''transaction not found'' else None)) \<and>
      (\<forall>t name r. inp = WUint 4 # WUint t # WBytes name # r \<longrightarrow>
         lastError s' =
           (case transactions s t of
              None \<Rightarrow> Some ''transaction not found''
            | Some tx \<Rightarrow> (case tx_Bucket env tx name of
                           None \<Rightarrow> Some ''bucket not found''
                         | Some bucket \<Rightarrow> None))) \<and>
      (\<forall>b key r. inp = WUint 5 # WUint b # WBytes key # r \<longrightarrow>
         lastError s' = (if buckets s b = None then Some ''bucket not found'' else None)) \<and>
      (\<forall>b r. inp = WUint 6 # WUint b # r \<longrightarrow>
         lastError s' = (if buckets s b = None then Some ''bucket not found'' else None)) \<and>
      (\<forall>c key r. inp = WUint 7 # WUint c # WBytes key # r \<longrightarrow>
         lastError s' = (if cursors s c = None then Some ''cursor not found'' else None)) \<and>
      (\<forall>c r. inp = WUint 8 # WUint c # r \<longrightarrow>
         lastError s' = (if cursors s c = None then Some ''cursor not found'' else None))) \<and>
   (set vs \<subseteq> {WUint 0, WUint 1} \<and>
    after_rounds env (length vs) (vs @ rest) s = Some (inp2, s2) \<longrightarrow>
      inp2 = rest \<and> lastError s2 = lastError s) \<and>
   (\<forall>t r. transactions s t = None \<longrightarrow>
      one_command env (WUint 3 # WUint t # r) s
        = Cont r (s\<lparr>lastError := Some ''transaction not found''\<rparr>)) \<and>
   (\<forall>t tx w r. transactions s t = Some tx \<and> tx_Rollback env tx (world s) = (None, w) \<longrightarrow>
      (\<exists>s'. one_command env (WUint 3 # WUint t # r) s = Cont r s' \<and> lastError s' = None)) \<and>
   (\<forall>t tx msg w r. transactions s t = Some tx \<and> tx_Rollback env tx (world s) = (Some msg, w) \<longrightarrow>
      (\<exists>s'. one_command env (WUint 3 # WUint t # r) s = Halt (Some (RollbackFailure msg)) s' \<and>
         lastError s' = lastError s)) \<and>
   ((\<forall>written v. write_ok env written v) \<longrightarrow>
      (\<forall>r. \<exists>s'. one_command env (WUint 0 # r) s = Cont r s' \<and> lastError s' = lastError s) \<and>
      (\<forall>r. \<exists>s'. one_command env (WUint 1 # r) s = Cont r s' \<and> lastError s' = lastError s) \<and>
      (\<forall>t name r. \<exists>s'. one_command env (WUint 4 # WUint t # WBytes name # r) s = Cont r s' \<and>
         lastError s' =
           (case transactions s t of
              None \<Rightarrow> Some ''transaction not found''
            | Some tx \<Rightarrow> (case tx_Bucket env tx name of
                           None \<Rightarrow> Some ''bucket not found''
                         | Some bucket \<Rightarrow> None))) \<and>
      (\<forall>b key r. \<exists>s'. one_command env (WUint 5 # WUint b # WBytes key # r) s = Cont r s' \<and>
         lastError s' = (if buckets s b = None then Some ''bucket not found'' else None)) \<and>
      (\<forall>b r. \<exists>s'. one_command env (WUint 6 # WUint b # r) s = Cont r s' \<and>
         lastError s' = (if buckets s b = None then Some ''bucket not found'' else None)) \<and>
      (\<forall>c key r. \<exists>s'. one_command env (WUint 7 # WUint c # WBytes key # r) s = Cont r s' \<and>
         lastError s' = (if cursors s c = None then Some ''cursor not found'' else None)) \<and>
      (\<forall>c r. \<exists>s'. one_command env (WUint 8 # WUint c # r) s = Cont (snd (decode_uint64 r)) s' \<and>
         lastError s' = (if cursors s c = None then Some ''cursor not found'' else None)) \<and>
      (\<forall>ws rest'. set ws \<subseteq> {WUint 0, WUint 1} \<longrightarrow>
         (\<exists>s'. after_rounds env (length ws) (ws @ rest') s = Some (rest', s') \<and>
            lastError s' = lastError s)))"
proof -
  have guarded: "one_command env inp s = Cont inp' s' \<longrightarrow>
      (\<forall>r. inp = WUint 0 # r \<longrightarrow> lastError s' = lastError s) \<and>
      (\<forall>r. inp = WUint 1 # r \<longrightarrow> lastError s' = lastError s) \<and>
      (\<forall>t r. inp = WUint 3 # WUint t # r \<longrightarrow>
         lastError s' = (if transactions s t = None then Some ''transaction not found'' else None)) \<and>
      (\<forall>t name r. inp = WUint 4 # WUint t # WBytes name # r \<longrightarrow>
         lastError s' =
           (case transactions s t of
              None \<Rightarrow> Some ''transaction not found''
            | Some tx \<Rightarrow> (case tx_Bucket env tx name of
                           None \<Rightarrow> Some ''bucket not found''
                         | Some bucket \<Rightarrow> None))) \<and>
      (\<forall>b key r. inp = WUint 5 # WUint b # WBytes key # r \<longrightarrow>
         lastError s' = (if buckets s b = None then Some ''bucket not found'' else None)) \<and>
      (\<forall>b r. inp = WUint 6 # WUint b # r \<longrightarrow>
         lastError s' = (if buckets s b = None then Some ''bucket not found'' else None)) \<and>
      (\<forall>c key r. inp = WUint 7 # WUint c # WBytes key # r \<longrightarrow>
         lastError s' = (if cursors s c = None then Some ''cursor not found'' else None)) \<and>
      (\<forall>c r. inp = WUint 8 # WUint c # r \<longrightarrow>
         lastError s' = (if cursors s c = None then Some ''cursor not found'' else None))"
    by (intro conjI impI allI)
       (auto split del: if_split
          dest: Version_round LastError_round EndTx_round Bucket_round Get_round Cursor_round
            Seek_round Next_round)
  have probes: "set vs \<subseteq> {WUint 0, WUint 1} \<and>
      after_rounds env (length vs) (vs @ rest) s = Some (inp2, s2) \<longrightarrow>
      inp2 = rest \<and> lastError s2 = lastError s"
    using probes_keep_lastError by blast
  have endtx: "(\<forall>t r. transactions s t = None \<longrightarrow>
      one_command env (WUint 3 # WUint t # r) s
        = Cont r (s\<lparr>lastError := Some ''transaction not found''\<rparr>)) \<and>
   (\<forall>t tx w r. transactions s t = Some tx \<and> tx_Rollback env tx (world s) = (None, w) \<longrightarrow>
      (\<exists>s'. one_command env (WUint 3 # WUint t # r) s = Cont r s' \<and> lastError s' = None)) \<and>
   (\<forall>t tx msg w r. transactions s t = Some tx \<and> tx_Rollback env tx (world s) = (Some msg, w) \<longrightarrow>
      (\<exists>s'. one_command env (WUint 3 # WUint t # r) s = Halt (Some (RollbackFailure msg)) s' \<and>
         lastError s' = lastError s))"
  proof (intro conjI allI impI)
    fix t r
    assume "transactions s t = None"
    then show "one_command env (WUint 3 # WUint t # r) s
        = Cont r (s\<lparr>lastError := Some ''transaction not found''\<rparr>)"
      by (rule EndTx_unknown)
  next
    fix t tx w r
    assume "transactions s t = Some tx \<and> tx_Rollback env tx (world s) = (None, w)"
    then show "\<exists>s'. one_command env (WUint 3 # WUint t # r) s = Cont r s' \<and> lastError s' = None"
      using EndTx_rolled_back [of s t tx env w r] by simp
  next
    fix t tx msg w r
    assume "transactions s t = Some tx \<and> tx_Rollback env tx (world s) = (Some msg, w)"
    then show "\<exists>s'. one_command env (WUint 3 # WUint t # r) s
        = Halt (Some (RollbackFailure msg)) s' \<and> lastError s' = lastError s"
      using EndTx_rollback_fails [of s t tx env msg w r] by simp
  qed
  have writer: "(\<forall>written v. write_ok env written v) \<longrightarrow>
      (\<forall>r. \<exists>s'. one_command env (WUint 0 # r) s = Cont r s' \<and> lastError s' = lastError s) \<and>
      (\<forall>r. \<exists>s'. one_command env (WUint 1 # r) s = Cont r s' \<and> lastError s' = lastError s) \<and>
      (\<forall>t name r. \<exists>s'. one_command env (WUint 4 # WUint t # WBytes name # r) s = Cont r s' \<and>
         lastError s' =
           (case transactions s t of
              None \<Rightarrow> Some ''transaction not found''
            | Some tx \<Rightarrow> (case tx_Bucket env tx name of
                           None \<Rightarrow> Some ''bucket not found''
                         | Some bucket \<Rightarrow> None))) \<and>
      (\<forall>b key r. \<exists>s'. one_command env (WUint 5 # WUint b # WBytes key # r) s = Cont r s' \<and>
         lastError s' = (if buckets s b = None then Some ''bucket not found'' else None)) \<and>
      (\<forall>b r. \<exists>s'. one_command env (WUint 6 # WUint b # r) s = Cont r s' \<and>
         lastError s' = (if buckets s b = None then Some ''bucket not found'' else None)) \<and>
      (\<forall>c key r. \<exists>s'. one_command env (WUint 7 # WUint c # WBytes key # r) s = Cont r s' \<and>
         lastError s' = (if cursors s c = None then Some ''cursor not found'' else None)) \<and>
      (\<forall>c r. \<exists>s'. one_command env (WUint 8 # WUint c # r) s = Cont (snd (decode_uint64 r)) s' \<and>
         lastError s' = (if cursors s c = None then Some ''cursor not found'' else None)) \<and>
      (\<forall>ws rest'. set ws \<subseteq> {WUint 0, WUint 1} \<longrightarrow>
         (\<exists>s'. after_rounds env (length ws) (ws @ rest') s = Some (rest', s') \<and>
            lastError s' = lastError s))"
  proof (intro impI conjI allI)
    assume "\<forall>written v. write_ok env written v"
    then have wok: "\<And>written v. write_ok env written v" by simp
    fix r t name b key c ws rest'
    show "\<exists>s'. one_command env (WUint 0 # r) s = Cont r s' \<and> lastError s' = lastError s"
      by (rule Version_goes_on [OF wok])
    show "\<exists>s'. one_command env (WUint 1 # r) s = Cont r s' \<and> lastError s' = lastError s"
      by (rule LastError_goes_on [OF wok])
    show "\<exists>s'. one_command env (WUint 4 # WUint t # WBytes name # r) s = Cont r s' \<and>
         lastError s' =
           (case transactions s t of
              None \<Rightarrow> Some ''transaction not found''
            | Some tx \<Rightarrow> (case tx_Bucket env tx name of
                           None \<Rightarrow> Some ''bucket not found''
                         | Some bucket \<Rightarrow> None))"
      by (rule Bucket_goes_on [OF wok])
    show "\<exists>s'. one_command env (WUint 5 # WUint b # WBytes key # r) s = Cont r s' \<and>
         lastError s' = (if buckets s b = None then Some ''bucket not found'' else None)"
      by (rule Get_goes_on [OF wok])
    show "\<exists>s'. one_command env (WUint 6 # WUint b # r) s = Cont r s' \<and>
         lastError s' = (if buckets s b = None then Some ''bucket not found'' else None)"
      by (rule Cursor_goes_on [OF wok])
    show "\<exists>s'. one_command env (WUint 7 # WUint c # WBytes key # r) s = Cont r s' \<and>
         lastError s' = (if cursors s c = None then Some ''cursor not found'' else None)"
      by (rule Seek_goes_on [OF wok])
    show "\<exists>s'. one_command env (WUint 8 # WUint c # r) s = Cont (snd (decode_uint64 r)) s' \<and>
         lastError s' = (if cursors s c = None then Some ''cursor not found'' else None)"
      by (rule Next_goes_on [OF wok])
    show "\<exists>s'. after_rounds env (length ws) (ws @ rest') s = Some (rest', s') \<and>
            lastError s' = lastError s" if "set ws \<subseteq> {WUint 0, WUint 1}"
      using probes_go_on [OF wok that] .
  qed
  show ?thesis
    by (intro conjI guarded probes writer endtx [THEN conjunct1]
          endtx [THEN conjunct2, THEN conjunct1] endtx [THEN conjunct2, THEN conjunct2])
qed

text \<open>
  On the small store, from a session whose \<^verbatim>\<open>lastError\<close> is \<^verbatim>\<open>stale\<close>: every command on
  its success path and on its failure path, \<^verbatim>\<open>EndTx\<close> with a failing rollback, and a run
  of three probes.
\<close>

theorem lastError_outcome_witness:
  "(\<exists>s'. one_command demo_env [WUint 0] stale_session = Cont [] s' \<and>
      lastError s' = Some ''stale'' \<and> out s' = out stale_session @ [WUint Version]) \<and>
   (\<exists>s'. one_command demo_env [WUint 1] stale_session = Cont [] s' \<and>
      lastError s' = Some ''stale'' \<and> out s' = out stale_session @ [WText ''stale'']) \<and>
   (\<exists>s'. one_command demo_env [WUint 3, WUint 9] stale_session = Cont [] s' \<and>
      lastError s' = Some ''transaction not found'' \<and> out s' = out stale_session) \<and>
   (\<exists>s'. one_command demo_env [WUint 3, WUint 1] stale_session = Cont [] s' \<and>
      lastError s' = None \<and> out s' = out stale_session) \<and>
   (\<exists>s'. one_command demo_env [WUint 4, WUint 9, WBytes (Some [100, 97, 116, 97])] stale_session
        = Cont [] s' \<and>
      lastError s' = Some ''transaction not found'' \<and> out s' = out stale_session @ [WUint 0]) \<and>
   (\<exists>s'. one_command demo_env [WUint 4, WUint 1, WBytes (Some [120])] stale_session = Cont [] s' \<and>
      lastError s' = Some ''bucket not found'' \<and> out s' = out stale_session @ [WUint 0]) \<and>
   (\<exists>s'. one_command demo_env [WUint 4, WUint 1, WBytes (Some [100, 97, 116, 97])] stale_session
        = Cont [] s' \<and>
      lastError s' = None \<and> out s' = out stale_session @ [WUint 4]) \<and>
   (\<exists>s'. one_command demo_env [WUint 5, WUint 9, WBytes (Some [97])] stale_session = Cont [] s' \<and>
      lastError s' = Some ''bucket not found'' \<and> out s' = out stale_session @ [WBytes None]) \<and>
   (\<exists>s'. one_command demo_env [WUint 5, WUint 2, WBytes (Some [97])] stale_session = Cont [] s' \<and>
      lastError s' = None \<and> out s' = out stale_session @ [WBytes (Some [49])]) \<and>
   (\<exists>s'. one_command demo_env [WUint 6, WUint 9] stale_session = Cont [] s' \<and>
      lastError s' = Some ''bucket not found'' \<and> out s' = out stale_session @ [WUint 0]) \<and>
   (\<exists>s'. one_command demo_env [WUint 6, WUint 2] stale_session = Cont [] s' \<and>
      lastError s' = None \<and> out s' = out stale_session @ [WUint 4]) \<and>
   (\<exists>s'. one_command demo_env [WUint 7, WUint 9, WBytes (Some [98])] stale_session = Cont [] s' \<and>
      lastError s' = Some ''cursor not found'' \<and>
      out s' = out stale_session @ [WBytes None, WBytes None]) \<and>
   (\<exists>s'. one_command demo_env [WUint 7, WUint 3, WBytes (Some [98])] stale_session = Cont [] s' \<and>
      lastError s' = None \<and>
      out s' = out stale_session @ [WBytes (Some [98]), WBytes (Some [50])]) \<and>
   (\<exists>s'. one_command demo_env [WUint 8, WUint 9, WUint 1] stale_session = Cont [] s' \<and>
      lastError s' = Some ''cursor not found'' \<and> out s' = out stale_session) \<and>
   (\<exists>s'. one_command demo_env [WUint 8, WUint 3, WUint 1] stale_session = Cont [] s' \<and>
      lastError s' = None \<and>
      out s' = out stale_session @ [WBytes (Some [98]), WBytes (Some [50])]) \<and>
   (\<exists>s'. one_command (demo_env\<lparr>tx_Rollback := (\<lambda>tx w. (Some ''tx closed'', w))\<rparr>)
          [WUint 3, WUint 1] stale_session
        = Halt (Some (RollbackFailure ''tx closed'')) s' \<and>
      lastError s' = Some ''stale'') \<and>
   (\<exists>s'. after_rounds demo_env 3 [WUint 0, WUint 1, WUint 0] stale_session = Some ([], s') \<and>
      lastError s' = Some ''stale'' \<and>
      out s' = out stale_session @ [WUint Version, WText ''stale'', WUint Version])"
  using lastError_outcome [of demo_env "[WUint 5, WUint 2, WBytes (Some [97])]" stale_session "[]"
      "stale_session\<lparr>lastError := None, out := out stale_session @ [WBytes (Some [49])]\<rparr>"
      "[WUint 0, WUint 1, WUint 0]" "[]" "[]"
      "stale_session\<lparr>out := out stale_session @ [WUint Version, WText ''stale'', WUint Version]\<rparr>"]
    lastError_outcome [of "demo_env\<lparr>tx_Rollback := (\<lambda>tx w. (Some ''tx closed'', w))\<rparr>"
      "[WUint 3, WUint 9]" stale_session "[]"
      "stale_session\<lparr>lastError := Some ''transaction not found''\<rparr>" "[]" "[]" "[]" stale_session]
  by (simp add: next_loop.simps after_rounds_numeral after_rounds_1 one_command_tag dispatch_def Cmd_defs
      do_Version_def do_LastError_def do_EndTx_def do_Bucket_def do_Get_def do_Cursor_def
      do_Seek_def do_Next_def remove_buckets_def remove_bucket_def Let_def
      Encode_def Encode2_def encode_def decode_uint64.simps
      demo_env_def demo_Seek_def demo_Next_def stale_session_def demo_session_def demo_items_def
      errorString_def)

subsection \<open>The accept loop\<close>

lemma accept_loop_never_closes: "CloseListener \<notin> set (accept_loop has_ch es)"
  by (induction has_ch es rule: accept_loop.induct) auto

lemma Listener_never_closes:
  "CloseListener \<notin> set (fst (Listener listen_ok has_ch es))"
  by (simp add: Listener_def accept_loop_never_closes)

lemma Listener_never_returns: "listen_ok \<Longrightarrow> \<not> snd (Listener listen_ok has_ch es)"
  by (simp add: Listener_def)

text \<open>
  C9. A value on \<^verbatim>\<open>interruptCh\<close> does not end the accept loop. With a channel, a first
  connection accepted while a value is ready on the channel, and a second connection:
  \<^verbatim>\<open>Listener\<close> logs the interruption, then accepts the second connection and starts its
  \<^verbatim>\<open>Server\<close>; it has not returned and has not closed the listener (lemmas
  \<open>Listener_never_closes\<close> and \<open>Listener_never_returns\<close>: it never does).
\<close>

theorem Listener_goes_on_after_interrupt:
  "Listener True True [(Conn 1, True), (Conn 2, False)]
     = ([LogListening, GoServer 1, LogInterrupted, GoServer 2], False)"
  by (simp add: Listener_def)

subsection \<open>The effect of each command on the handles\<close>

lemma Encode_None:
  "Encode env v s = (s', None) \<Longrightarrow> s' = s\<lparr>out := out s @ [v]\<rparr>"
  by (auto simp: Encode_def encode_def split: if_splits)

lemma Encode2_None:
  "Encode2 env k v s = (s', None) \<Longrightarrow> s' = s\<lparr>out := out s @ [k, v]\<rparr>"
  by (auto simp: Encode2_def split: prod.splits option.splits dest!: Encode_None)

lemma keeps_refl: "keeps s s"
  by (simp add: keeps_def)

lemma do_Version_keeps: "do_Version env inp s = (inp', s', None) \<Longrightarrow> keeps s s'"
  by (auto simp: do_Version_def keeps_def dest!: Encode_None)

lemma do_LastError_keeps: "do_LastError env inp s = (inp', s', None) \<Longrightarrow> keeps s s'"
  by (auto simp: do_LastError_def keeps_def dest!: Encode_None)

lemma remove_bucket_simps:
  "issued (remove_bucket x s) = issued s"
  "lastHandle (remove_bucket x s) = lastHandle s"
  "transactions (remove_bucket x s) = transactions s"
  "bucketsByTx (remove_bucket x s) = bucketsByTx s"
  "world (remove_bucket x s) = world s"
  "buckets (remove_bucket x s) = (buckets s)(x := None)"
  "cursorsByBucket (remove_bucket x s) = (cursorsByBucket s)(x := None)"
  by (auto simp: remove_bucket_def Let_def split: option.splits)

lemma fold_delete_None: "m c = None \<Longrightarrow> fold (\<lambda>k m. m(k := None)) cs m c = None"
  by (induction cs arbitrary: m) auto

lemma fold_delete_member: "c \<in> set cs \<Longrightarrow> fold (\<lambda>k m. m(k := None)) cs m c = None"
  by (induction cs arbitrary: m) (auto simp: fold_delete_None)

lemma remove_bucket_cursors_None:
  "cursors s c = None \<Longrightarrow> cursors (remove_bucket x s) c = None"
  by (auto simp: remove_bucket_def Let_def fold_delete_None split: option.splits)

lemma remove_bucket_cursors_owned:
  "cursorsByBucket s b = Some cs \<Longrightarrow> c \<in> set cs \<Longrightarrow> cursors (remove_bucket b s) c = None"
  by (auto simp: remove_bucket_def Let_def fold_delete_member)

lemma fold_remove_bucket_simps:
  "issued (fold remove_bucket bs s) = issued s"
  "lastHandle (fold remove_bucket bs s) = lastHandle s"
  "transactions (fold remove_bucket bs s) = transactions s"
  "bucketsByTx (fold remove_bucket bs s) = bucketsByTx s"
  "world (fold remove_bucket bs s) = world s"
  by (induction bs arbitrary: s) (auto simp: remove_bucket_simps)

lemma fold_remove_bucket_buckets:
  "buckets (fold remove_bucket bs s) b = (if b \<in> set bs then None else buckets s b)"
  by (induction bs arbitrary: s) (auto simp: remove_bucket_simps)

lemma fold_remove_bucket_index:
  "cursorsByBucket (fold remove_bucket bs s) b
     = (if b \<in> set bs then None else cursorsByBucket s b)"
  by (induction bs arbitrary: s) (auto simp: remove_bucket_simps)

lemma fold_remove_bucket_cursors_None:
  "cursors s c = None \<Longrightarrow> cursors (fold remove_bucket bs s) c = None"
  by (induction bs arbitrary: s) (auto simp: remove_bucket_cursors_None)

lemma fold_remove_bucket_cursors_owned:
  "b \<in> set bs \<Longrightarrow> cursorsByBucket s b = Some cs \<Longrightarrow> c \<in> set cs \<Longrightarrow>
     cursors (fold remove_bucket bs s) c = None"
proof (induction bs arbitrary: s)
  case Nil
  then show ?case by simp
next
  case (Cons x bs)
  show ?case
  proof (cases "x = b")
    case True
    then have "cursors (remove_bucket x s) c = None"
      using Cons.prems by (simp add: remove_bucket_cursors_owned)
    then show ?thesis by (simp add: fold_remove_bucket_cursors_None)
  next
    case False
    then have "b \<in> set bs" "cursorsByBucket (remove_bucket x s) b = Some cs"
      using Cons.prems by (auto simp: remove_bucket_simps)
    then show ?thesis using Cons.IH Cons.prems(3) by simp
  qed
qed

lemma remove_buckets_simps:
  "issued (remove_buckets t s) = issued s"
  "lastHandle (remove_buckets t s) = lastHandle s"
  "transactions (remove_buckets t s) = transactions s"
  "bucketsByTx (remove_buckets t s) = (bucketsByTx s)(t := None)"
  "world (remove_buckets t s) = world s"
  by (auto simp: remove_buckets_def Let_def fold_remove_bucket_simps split: option.splits)

lemma remove_buckets_buckets:
  "buckets (remove_buckets t s) b
     = (case bucketsByTx s t of
          Some bs \<Rightarrow> if b \<in> set bs then None else buckets s b
        | None \<Rightarrow> buckets s b)"
  by (auto simp: remove_buckets_def Let_def fold_remove_bucket_buckets split: option.splits)

lemma remove_buckets_index:
  "cursorsByBucket (remove_buckets t s) b
     = (case bucketsByTx s t of
          Some bs \<Rightarrow> if b \<in> set bs then None else cursorsByBucket s b
        | None \<Rightarrow> cursorsByBucket s b)"
  by (auto simp: remove_buckets_def Let_def fold_remove_bucket_index split: option.splits)

lemma remove_buckets_cursors_None:
  "cursors s c = None \<Longrightarrow> cursors (remove_buckets t s) c = None"
  by (auto simp: remove_buckets_def Let_def fold_remove_bucket_cursors_None split: option.splits)

lemma remove_buckets_cursors_owned:
  "bucketsByTx s t = Some bs \<Longrightarrow> b \<in> set bs \<Longrightarrow> cursorsByBucket s b = Some cs \<Longrightarrow>
   c \<in> set cs \<Longrightarrow> cursors (remove_buckets t s) c = None"
  by (simp add: remove_buckets_def Let_def fold_remove_bucket_cursors_owned)

lemma remove_buckets_cursors_dom: "dom (cursors (remove_buckets t s)) \<subseteq> dom (cursors s)"
proof
  fix c assume "c \<in> dom (cursors (remove_buckets t s))"
  then have "cursors s c \<noteq> None"
    using remove_buckets_cursors_None [of s c t] by (cases "cursors s c") auto
  then show "c \<in> dom (cursors s)" by (simp add: domIff)
qed

lemma remove_buckets_buckets_dom: "dom (buckets (remove_buckets t s)) \<subseteq> dom (buckets s)"
  by (auto simp: remove_buckets_buckets split: option.splits if_splits)

lemma remove_buckets_index_le:
  "cursorsByBucket (remove_buckets t s) b = Some cs \<Longrightarrow> cursorsByBucket s b = Some cs"
  by (auto simp: remove_buckets_index split: option.splits if_splits)

lemma remove_buckets_keeps: "keeps s (remove_buckets t s)"
  unfolding keeps_def
  using remove_buckets_cursors_dom [of t s] remove_buckets_buckets_dom [of t s]
  by (auto simp: remove_buckets_simps dest: remove_buckets_index_le split: if_splits)

lemma do_BeginTx_effect:
  assumes "do_BeginTx env inp s = (inp', s', None)"
  shows "keeps s s' \<and> out s' = out s @ [WUint 0] \<and> lastError s' \<noteq> None \<or>
         allocates_tx s s' (lastHandle s + 1)"
proof (cases "db_Begin env (world s)")
  case (Pair r w)
  show ?thesis
  proof (cases r)
    case (Inl msg)
    with Pair assms have "Encode env (WUint 0) (s\<lparr>world := w, lastError := Some msg\<rparr>) = (s', None)"
      by (simp add: do_BeginTx_def)
    from Encode_None [OF this] show ?thesis by (simp add: keeps_def)
  next
    case (Inr tx)
    with Pair assms have "Encode env (WUint (lastHandle s + 1))
        (s\<lparr>world := w, lastError := None, deferred := tx # deferred s,
           lastHandle := lastHandle s + 1,
           transactions := (transactions s)(lastHandle s + 1 \<mapsto> tx),
           issued := issued s @ [lastHandle s + 1]\<rparr>) = (s', None)"
      by (simp add: do_BeginTx_def Let_def)
    from Encode_None [OF this] show ?thesis by (simp add: allocates_tx_def issues_def)
  qed
qed

lemma do_Get_keeps:
  assumes "do_Get env inp s = (inp', s', None)"
  shows "keeps s s'"
proof -
  from assms obtain e v where "Encode env v (s\<lparr>lastError := e\<rparr>) = (s', None)"
    by (auto simp: do_Get_def split: prod.splits sum.splits option.splits)
  from Encode_None [OF this] show ?thesis by (simp add: keeps_def)
qed

lemma do_Seek_keeps:
  assumes "do_Seek env inp s = (inp', s', None)"
  shows "keeps s s'"
  using assms
  by (auto simp: do_Seek_def keeps_def split: prod.splits sum.splits option.splits if_splits
      dest!: Encode2_None)

lemma do_Next_keeps:
  assumes "do_Next env inp s = (inp', s', None)"
  shows "keeps s s'"
proof -
  from assms consider
    (known) h c w where "cursors s h \<noteq> None"
      "s' = s\<lparr>cursors := (cursors s)(h \<mapsto> c), out := w, lastError := None\<rparr>"
  | (unknown) e where "s' = s\<lparr>lastError := e\<rparr>"
    by (auto simp: do_Next_def Let_def split: prod.splits sum.splits option.splits)
  then show ?thesis
    by cases (auto simp: keeps_def)
qed


lemma do_EndTx_keeps:
  assumes "do_EndTx env inp s = (inp', s', None)"
  shows "keeps s s'"
proof -
  from assms consider
    (known) t w where "transactions s t \<noteq> None"
      "s' = (remove_buckets t s)\<lparr>world := w,
         transactions := (transactions (remove_buckets t s))(t := None), lastError := None\<rparr>"
  | (unknown) e where "s' = s\<lparr>lastError := e\<rparr>"
    by (auto simp: do_EndTx_def Let_def split: prod.splits sum.splits option.splits)
  then show ?thesis
  proof cases
    case known
    have "keeps s (remove_buckets t s)" by (rule remove_buckets_keeps)
    then show ?thesis using known(2)
      by (auto simp: keeps_def remove_buckets_simps split: if_splits)
  next
    case unknown
    then show ?thesis by (simp add: keeps_def)
  qed
qed

lemma do_Bucket_effect:
  assumes "do_Bucket env inp s = (inp', s', None)"
  shows "keeps s s' \<and> out s' = out s @ [WUint 0] \<and> lastError s' \<noteq> None \<or>
         allocates_bucket s s' (lastHandle s + 1)"
proof -
  obtain x r where d1: "decode_uint64 inp = (x, r)" by (cases "decode_uint64 inp")
  obtain t where x: "x = Inr t" using assms d1 by (cases x) (auto simp: do_Bucket_def)
  obtain y r' where d2: "decode_bytes r = (y, r')" by (cases "decode_bytes r")
  obtain name where y: "y = Inr name" using assms d1 x d2 by (cases y) (auto simp: do_Bucket_def)
  note unfold = do_Bucket_def d1 x d2 y
  show ?thesis
  proof (cases "transactions s t")
    case None
    with assms have "Encode env (WUint 0) (s\<lparr>lastError := Some ''transaction not found''\<rparr>)
        = (s', None)"
      by (simp add: unfold)
    from Encode_None [OF this] show ?thesis by (simp add: keeps_def)
  next
    case known: (Some tx)
    show ?thesis
    proof (cases "tx_Bucket env tx name")
      case None
      with assms known have "Encode env (WUint 0) (s\<lparr>lastError := Some ''bucket not found''\<rparr>)
          = (s', None)"
        by (simp add: unfold)
      from Encode_None [OF this] show ?thesis by (simp add: keeps_def)
    next
      case (Some bucket)
      with assms known have "Encode env (WUint (lastHandle s + 1))
          (s\<lparr>lastHandle := lastHandle s + 1,
             buckets := (buckets s)(lastHandle s + 1 \<mapsto> bucket),
             bucketsByTx := (bucketsByTx s)(t \<mapsto>
               (case bucketsByTx s t of
                  Some bucketHandles \<Rightarrow> bucketHandles @ [lastHandle s + 1]
                | None \<Rightarrow> [lastHandle s + 1])),
             lastError := None,
             issued := issued s @ [lastHandle s + 1]\<rparr>) = (s', None)"
        by (simp add: unfold Let_def)
      from Encode_None [OF this] known have "allocates_bucket s s' (lastHandle s + 1)"
        unfolding allocates_bucket_def issues_def by (intro conjI exI [of _ t]) simp_all
      then show ?thesis ..
    qed
  qed
qed

lemma do_Cursor_effect:
  assumes "do_Cursor env inp s = (inp', s', None)"
  shows "keeps s s' \<and> out s' = out s @ [WUint 0] \<and> lastError s' \<noteq> None \<or>
         allocates_cursor s s' (lastHandle s + 1)"
proof -
  obtain x r where d1: "decode_uint64 inp = (x, r)" by (cases "decode_uint64 inp")
  obtain b where x: "x = Inr b" using assms d1 by (cases x) (auto simp: do_Cursor_def)
  note unfold = do_Cursor_def d1 x
  show ?thesis
  proof (cases "buckets s b")
    case None
    with assms have "Encode env (WUint 0) (s\<lparr>lastError := Some ''bucket not found''\<rparr>)
        = (s', None)"
      by (simp add: unfold)
    from Encode_None [OF this] show ?thesis by (simp add: keeps_def)
  next
    case (Some bucket)
    with assms have "Encode env (WUint (lastHandle s + 1))
        (s\<lparr>lastHandle := lastHandle s + 1,
           cursors := (cursors s)(lastHandle s + 1 \<mapsto> bucket_Cursor env bucket),
           cursorsByBucket := (cursorsByBucket s)(b \<mapsto>
             (case cursorsByBucket s b of
                Some cursorHandles \<Rightarrow> cursorHandles @ [lastHandle s + 1]
              | None \<Rightarrow> [lastHandle s + 1])),
           lastError := None,
           issued := issued s @ [lastHandle s + 1]\<rparr>) = (s', None)"
      by (simp add: unfold Let_def)
    from Encode_None [OF this] Some have "allocates_cursor s s' (lastHandle s + 1)"
      unfolding allocates_cursor_def issues_def by (intro conjI exI [of _ b]) simp_all
    then show ?thesis ..
  qed
qed

lemma dispatch_effect: "dispatch env c inp s = (inp', s', None) \<Longrightarrow> effect s s'"
  unfolding dispatch_def effect_def
  by (auto split: if_splits
      dest: do_Version_keeps do_LastError_keeps do_BeginTx_effect do_EndTx_keeps do_Bucket_effect
        do_Get_keeps do_Cursor_effect do_Seek_keeps do_Next_keeps)

lemma one_command_effect: "one_command env inp s = Cont inp' s' \<Longrightarrow> effect s s'"
  by (auto simp: one_command_def split: prod.splits sum.splits option.splits if_splits
      dest: dispatch_effect)

lemma effect_issued:
  "effect s s' \<Longrightarrow> issued s' = issued s \<or> issued s' = issued s @ [lastHandle s + 1]"
  by (auto simp: effect_def keeps_def allocates_tx_def allocates_bucket_def allocates_cursor_def
      issues_def)

lemma effect_length: "effect s s' \<Longrightarrow> length (issued s) \<le> length (issued s')"
  using effect_issued [of s s'] by auto

lemma wf_init: "wf (init db)"
  by (simp add: wf_def init_def registered_def indexed_def)

lemma separate_init: "separate (init db)"
  by (simp add: separate_def init_def)

lemma keeps_registered: "keeps s s' \<Longrightarrow> registered s' \<subseteq> registered s"
  by (auto simp: keeps_def registered_def)

lemma keeps_indexed: "keeps s s' \<Longrightarrow> indexed s' \<subseteq> indexed s"
  unfolding keeps_def indexed_def ran_def by blast

lemma indexed_update:
  "(\<Union>bs \<in> ran (m(t \<mapsto> (case m t of Some bs \<Rightarrow> bs @ [h] | None \<Rightarrow> [h]))). set bs)
     \<subseteq> insert h (\<Union>bs \<in> ran m. set bs)"
proof
  fix x assume "x \<in> (\<Union>bs \<in> ran (m(t \<mapsto> (case m t of Some bs \<Rightarrow> bs @ [h] | None \<Rightarrow> [h]))). set bs)"
  then obtain k bs where k: "(m(t \<mapsto> (case m t of Some bs \<Rightarrow> bs @ [h] | None \<Rightarrow> [h]))) k = Some bs"
    and x: "x \<in> set bs"
    by (auto simp: ran_def)
  show "x \<in> insert h (\<Union>bs \<in> ran m. set bs)"
  proof (cases "k = t")
    case True
    with k x show ?thesis by (cases "m t") (auto simp: ran_def)
  next
    case False
    with k x show ?thesis by (auto simp: ran_def)
  qed
qed

lemma wf_keeps: "wf s \<Longrightarrow> keeps s s' \<Longrightarrow> wf s'"
  using keeps_registered [of s s'] keeps_indexed [of s s']
  by (auto simp: wf_def keeps_def)

lemma wf_issues:
  assumes "wf s" "issues s s' h"
  shows "lastHandle s' = of_nat (length (issued s'))"
    and "issued s' = map of_nat [1..<Suc (length (issued s'))]"
    and "set (issued s') = insert h (set (issued s))"
proof -
  from assms have h: "h = of_nat (Suc (length (issued s)))" and i: "issued s' = issued s @ [h]"
    and l: "lastHandle s' = h"
    by (simp_all add: wf_def issues_def)
  show "lastHandle s' = of_nat (length (issued s'))" using h i l by simp
  have "issued s = map of_nat [1..<Suc (length (issued s))]" using assms(1) by (simp add: wf_def)
  then have "issued s @ [h] = map of_nat [1..<Suc (Suc (length (issued s)))]"
    using h by simp
  then show "issued s' = map of_nat [1..<Suc (length (issued s'))]" using i by simp
  show "set (issued s') = insert h (set (issued s))" using i by simp
qed

lemma wf_allocates_tx: "wf s \<Longrightarrow> allocates_tx s s' h \<Longrightarrow> wf s'"
  using wf_issues [of s s' h]
  by (auto simp: wf_def allocates_tx_def registered_def indexed_def)

lemma wf_allocates_bucket:
  assumes "wf s" "allocates_bucket s s' h"
  shows "wf s'"
proof -
  from assms(2) have iss: "issues s s' h" by (simp add: allocates_bucket_def)
  note w = wf_issues [OF assms(1) iss]
  from assms(2) obtain t where
    t: "bucketsByTx s' = (bucketsByTx s)(t \<mapsto>
          (case bucketsByTx s t of Some bs \<Rightarrow> bs @ [h] | None \<Rightarrow> [h]))"
    by (auto simp: allocates_bucket_def)
  have "registered s' \<subseteq> insert h (registered s)"
    using assms(2) by (auto simp: allocates_bucket_def registered_def)
  moreover have "indexed s' \<subseteq> insert h (indexed s)"
    using assms(2) indexed_update [of "bucketsByTx s" t h]
    unfolding indexed_def t by (auto simp: allocates_bucket_def)
  ultimately show ?thesis using assms(1) w by (auto simp: wf_def)
qed

lemma wf_allocates_cursor:
  assumes "wf s" "allocates_cursor s s' h"
  shows "wf s'"
proof -
  from assms(2) have iss: "issues s s' h" by (simp add: allocates_cursor_def)
  note w = wf_issues [OF assms(1) iss]
  from assms(2) obtain b where
    b: "cursorsByBucket s' = (cursorsByBucket s)(b \<mapsto>
          (case cursorsByBucket s b of Some cs \<Rightarrow> cs @ [h] | None \<Rightarrow> [h]))"
    by (auto simp: allocates_cursor_def)
  have "registered s' \<subseteq> insert h (registered s)"
    using assms(2) by (auto simp: allocates_cursor_def registered_def)
  moreover have "indexed s' \<subseteq> insert h (indexed s)"
    using assms(2) indexed_update [of "cursorsByBucket s" b h]
    unfolding indexed_def b by (auto simp: allocates_cursor_def)
  ultimately show ?thesis using assms(1) w by (auto simp: wf_def)
qed

lemma wf_effect: "wf s \<Longrightarrow> effect s s' \<Longrightarrow> wf s'"
  unfolding effect_def
  using wf_keeps wf_allocates_tx wf_allocates_bucket wf_allocates_cursor by blast

subsection \<open>Invariants of the session\<close>

lemma unat_of_nat_64: "n < 2 ^ 64 \<Longrightarrow> unat (of_nat n :: 64 word) = n"
  by (simp add: unat_of_nat)

lemma wf_set_issued:
  "wf s \<Longrightarrow> set (issued s) = of_nat ` {1..length (issued s)}"
proof -
  assume "wf s"
  then have "issued s = map of_nat [1..<Suc (length (issued s))]" by (simp add: wf_def)
  then have "set (issued s) = set (map of_nat [1..<Suc (length (issued s))] :: 64 word list)"
    by simp
  also have "\<dots> = of_nat ` {1..length (issued s)}"
    by (simp only: set_map set_upt atLeastLessThanSuc_atLeastAtMost)
  finally show ?thesis .
qed

lemma fresh:
  assumes "wf s" "Suc (length (issued s)) < 2 ^ 64"
  shows "lastHandle s + 1 \<notin> set (issued s)"
proof
  assume "lastHandle s + 1 \<in> set (issued s)"
  then obtain j where j: "1 \<le> j" "j \<le> length (issued s)"
    and eq: "lastHandle s + 1 = (of_nat j :: 64 word)"
    using wf_set_issued [OF assms(1)] by auto
  have suc: "lastHandle s + 1 = (of_nat (Suc (length (issued s))) :: 64 word)"
    using assms(1) by (simp add: wf_def)
  have a: "unat (of_nat j :: 64 word) = j"
    using j assms(2) by (intro unat_of_nat_64) simp
  have b: "unat (of_nat (Suc (length (issued s))) :: 64 word) = Suc (length (issued s))"
    using assms(2) by (rule unat_of_nat_64)
  have "j = unat (lastHandle s + 1)" using a eq by (simp only:)
  also have "\<dots> = Suc (length (issued s))" using b suc by (simp only:)
  finally have "j = Suc (length (issued s))" .
  with j show False by simp
qed

lemma no_wrap_facts:
  assumes "wf s" "length (issued s) < 2 ^ 64"
  shows "distinct (issued s)" and "0 \<notin> set (issued s)" and "sorted_wrt (<) (issued s)"
proof -
  let ?k = "length (issued s)"
  have iss: "issued s = map of_nat [1..<Suc ?k]"
    using assms(1) by (simp add: wf_def)
  have inj: "inj_on (of_nat :: nat \<Rightarrow> 64 word) (set [1..<Suc ?k])"
  proof (rule inj_onI)
    fix x y assume "x \<in> set [1..<Suc ?k]" "y \<in> set [1..<Suc ?k]"
      and "(of_nat x :: 64 word) = of_nat y"
    then have "x < 2 ^ 64" "y < 2 ^ 64" "unat (of_nat x :: 64 word) = unat (of_nat y :: 64 word)"
      using assms(2) by auto
    then show "x = y" by (simp add: unat_of_nat_64)
  qed
  have "distinct (map (of_nat :: nat \<Rightarrow> 64 word) [1..<Suc ?k])"
    using inj by (simp add: distinct_map)
  then show "distinct (issued s)" using iss by simp
  show "0 \<notin> set (issued s)"
  proof
    assume "0 \<in> set (issued s)"
    then obtain j where j: "1 \<le> j" "j \<le> ?k" and eq: "(0 :: 64 word) = of_nat j"
      using wf_set_issued [OF assms(1)] by auto
    then have "unat (of_nat j :: 64 word) = 0" by simp
    then show False using j assms(2) by (simp add: unat_of_nat_64)
  qed
  have "sorted_wrt (\<lambda>x y. (of_nat x :: 64 word) < of_nat y) [1..<Suc ?k]"
  proof (rule sorted_wrt_mono_rel [where P = "(<)"])
    fix x y assume "x \<in> set [1..<Suc ?k]" "y \<in> set [1..<Suc ?k]" "x < y"
    then have "x < 2 ^ 64" "y < 2 ^ 64" using assms(2) by auto
    then show "(of_nat x :: 64 word) < of_nat y"
      using \<open>x < y\<close> by (simp add: word_less_nat_alt unat_of_nat_64)
  next
    show "sorted_wrt (<) [1..<Suc ?k]" by (rule sorted_wrt_upt)
  qed
  then have "sorted_wrt (<) (map (of_nat :: nat \<Rightarrow> 64 word) [1..<Suc ?k])"
    by (simp add: sorted_wrt_map)
  then show "sorted_wrt (<) (issued s)" using iss by simp
qed

lemma separate_effect:
  assumes "wf s" "separate s" "effect s s'" "length (issued s') < 2 ^ 64"
  shows "separate s'"
proof -
  let ?h = "lastHandle s + 1"
  have reg: "registered s \<subseteq> set (issued s)" using assms(1) by (simp add: wf_def)
  from assms(3) consider (k) "keeps s s'" | (t) "allocates_tx s s' ?h"
    | (b) "allocates_bucket s s' ?h" | (c) "allocates_cursor s s' ?h"
    unfolding effect_def by blast
  then show ?thesis
  proof cases
    case k
    then show ?thesis using assms(2) unfolding separate_def keeps_def by blast
  next
    case t
    then have "Suc (length (issued s)) < 2 ^ 64"
      using assms(4) by (simp add: allocates_tx_def issues_def)
    from fresh [OF assms(1) this] reg have "?h \<notin> registered s" by blast
    then show ?thesis using t assms(2)
      unfolding separate_def allocates_tx_def registered_def by auto
  next
    case b
    then have "Suc (length (issued s)) < 2 ^ 64"
      using assms(4) by (simp add: allocates_bucket_def issues_def)
    from fresh [OF assms(1) this] reg have "?h \<notin> registered s" by blast
    then show ?thesis using b assms(2)
      unfolding separate_def allocates_bucket_def registered_def by auto
  next
    case c
    then have "Suc (length (issued s)) < 2 ^ 64"
      using assms(4) by (simp add: allocates_cursor_def issues_def)
    from fresh [OF assms(1) this] reg have "?h \<notin> registered s" by blast
    then show ?thesis using c assms(2)
      unfolding separate_def allocates_cursor_def registered_def by auto
  qed
qed

text \<open>A handle that was issued and is not a bucket (a cursor) is not one later.\<close>

lemma dead_bucket_effect:
  assumes "wf s" "b \<in> set (issued s)" "buckets s b = None" "effect s s'"
    "length (issued s') < 2 ^ 64"
  shows "b \<in> set (issued s') \<and> buckets s' b = None"
proof -
  let ?h = "lastHandle s + 1"
  from assms(4) consider (k) "keeps s s'" | (t) "allocates_tx s s' ?h"
    | (b) "allocates_bucket s s' ?h" | (c) "allocates_cursor s s' ?h"
    unfolding effect_def by blast
  then show ?thesis
  proof cases
    case k
    then show ?thesis using assms(2,3) unfolding keeps_def by (auto simp: domIff subset_iff)
  next
    case t
    then show ?thesis using assms(2,3) by (simp add: allocates_tx_def issues_def)
  next
    case b
    then have "Suc (length (issued s)) < 2 ^ 64"
      using assms(5) by (simp add: allocates_bucket_def issues_def)
    from fresh [OF assms(1) this] assms(2) have "b \<noteq> ?h" by auto
    moreover have "dom (buckets s') = insert ?h (dom (buckets s))"
      using b by (simp add: allocates_bucket_def)
    ultimately have "b \<notin> dom (buckets s')" using assms(3) by (auto simp: domIff)
    then show ?thesis using b assms(2) by (auto simp: allocates_bucket_def issues_def)
  next
    case c
    then show ?thesis using assms(2,3) by (simp add: allocates_cursor_def issues_def)
  qed
qed

lemma dead_cursor_effect:
  assumes "wf s" "c \<in> set (issued s)" "cursors s c = None" "effect s s'"
    "length (issued s') < 2 ^ 64"
  shows "c \<in> set (issued s') \<and> cursors s' c = None"
proof -
  let ?h = "lastHandle s + 1"
  from assms(4) consider (k) "keeps s s'" | (t) "allocates_tx s s' ?h"
    | (b) "allocates_bucket s s' ?h" | (c) "allocates_cursor s s' ?h"
    unfolding effect_def by blast
  then show ?thesis
  proof cases
    case k
    then show ?thesis using assms(2,3) unfolding keeps_def by (auto simp: domIff subset_iff)
  next
    case t
    then show ?thesis using assms(2,3) by (simp add: allocates_tx_def issues_def)
  next
    case b
    then show ?thesis using assms(2,3) by (simp add: allocates_bucket_def issues_def)
  next
    case c
    then have "Suc (length (issued s)) < 2 ^ 64"
      using assms(5) by (simp add: allocates_cursor_def issues_def)
    from fresh [OF assms(1) this] assms(2) have "c \<noteq> ?h" by auto
    moreover have "dom (cursors s') = insert ?h (dom (cursors s))"
      using c by (simp add: allocates_cursor_def)
    ultimately have "c \<notin> dom (cursors s')" using assms(3) by (auto simp: domIff)
    then show ?thesis using c assms(2) by (auto simp: allocates_cursor_def issues_def)
  qed
qed

text \<open>Over several rounds.\<close>

lemma rounds_length:
  "after_rounds env n inp s = Some (inp', s') \<Longrightarrow> length (issued s) \<le> length (issued s')"
proof (induction n arbitrary: inp s)
  case 0
  then show ?case by simp
next
  case (Suc n)
  from Suc.prems obtain inp1 s1 where st: "one_command env inp s = Cont inp1 s1"
    and more: "after_rounds env n inp1 s1 = Some (inp', s')"
    by (auto split: round.splits)
  from effect_length [OF one_command_effect [OF st]] Suc.IH [OF more] show ?case by simp
qed

lemma rounds_wf:
  "wf s \<Longrightarrow> after_rounds env n inp s = Some (inp', s') \<Longrightarrow> wf s'"
proof (induction n arbitrary: inp s)
  case 0
  then show ?case by simp
next
  case (Suc n)
  from Suc.prems(2) obtain inp1 s1 where st: "one_command env inp s = Cont inp1 s1"
    and more: "after_rounds env n inp1 s1 = Some (inp', s')"
    by (auto split: round.splits)
  from wf_effect [OF Suc.prems(1) one_command_effect [OF st]] Suc.IH more show ?case by blast
qed

lemma rounds_separate:
  "wf s \<Longrightarrow> separate s \<Longrightarrow> after_rounds env n inp s = Some (inp', s') \<Longrightarrow>
   length (issued s') < 2 ^ 64 \<Longrightarrow> separate s'"
proof (induction n arbitrary: inp s)
  case 0
  then show ?case by simp
next
  case (Suc n)
  from Suc.prems(3) obtain inp1 s1 where st: "one_command env inp s = Cont inp1 s1"
    and more: "after_rounds env n inp1 s1 = Some (inp', s')"
    by (auto split: round.splits)
  note e = one_command_effect [OF st]
  have "length (issued s1) < 2 ^ 64"
    using rounds_length [OF more] Suc.prems(4) by simp
  from separate_effect [OF Suc.prems(1,2) e this] wf_effect [OF Suc.prems(1) e]
  show ?case using Suc.IH more Suc.prems(4) by blast
qed

lemma rounds_dead_bucket:
  "wf s \<Longrightarrow> b \<in> set (issued s) \<Longrightarrow> buckets s b = None \<Longrightarrow>
   after_rounds env n inp s = Some (inp', s') \<Longrightarrow> length (issued s') < 2 ^ 64 \<Longrightarrow>
   buckets s' b = None"
proof (induction n arbitrary: inp s)
  case 0
  then show ?case by simp
next
  case (Suc n)
  from Suc.prems(4) obtain inp1 s1 where st: "one_command env inp s = Cont inp1 s1"
    and more: "after_rounds env n inp1 s1 = Some (inp', s')"
    by (auto split: round.splits)
  note e = one_command_effect [OF st]
  have "length (issued s1) < 2 ^ 64"
    using rounds_length [OF more] Suc.prems(5) by simp
  from dead_bucket_effect [OF Suc.prems(1,2,3) e this] wf_effect [OF Suc.prems(1) e]
  show ?case using Suc.IH more Suc.prems(5) by blast
qed

lemma rounds_dead_cursor:
  "wf s \<Longrightarrow> c \<in> set (issued s) \<Longrightarrow> cursors s c = None \<Longrightarrow>
   after_rounds env n inp s = Some (inp', s') \<Longrightarrow> length (issued s') < 2 ^ 64 \<Longrightarrow>
   cursors s' c = None"
proof (induction n arbitrary: inp s)
  case 0
  then show ?case by simp
next
  case (Suc n)
  from Suc.prems(4) obtain inp1 s1 where st: "one_command env inp s = Cont inp1 s1"
    and more: "after_rounds env n inp1 s1 = Some (inp', s')"
    by (auto split: round.splits)
  note e = one_command_effect [OF st]
  have "length (issued s1) < 2 ^ 64"
    using rounds_length [OF more] Suc.prems(5) by simp
  from dead_cursor_effect [OF Suc.prems(1,2,3) e this] wf_effect [OF Suc.prems(1) e]
  show ?case using Suc.IH more Suc.prems(5) by blast
qed

lemma dispatch_issue:
  assumes "dispatch env c r s = (r', s', None)"
  shows "if c = CmdBeginTx \<or> c = CmdBucket \<or> c = CmdCursor then
           issued s' = issued s \<and> out s' = out s @ [WUint 0] \<and> lastError s' \<noteq> None \<or>
           issued s' = issued s @ [lastHandle s + 1] \<and> lastHandle s' = lastHandle s + 1 \<and>
             out s' = out s @ [WUint (lastHandle s + 1)] \<and> lastError s' = None \<and>
             (c = CmdBeginTx \<and> lastHandle s + 1 \<in> dom (transactions s') \<or>
              c = CmdBucket \<and> lastHandle s + 1 \<in> dom (buckets s') \<or>
              c = CmdCursor \<and> lastHandle s + 1 \<in> dom (cursors s'))
         else issued s' = issued s"
proof -
  consider (tx) "c = CmdBeginTx" | (bucket) "c = CmdBucket" | (cursor) "c = CmdCursor"
    | (other) "c \<noteq> CmdBeginTx" "c \<noteq> CmdBucket" "c \<noteq> CmdCursor"
    by blast
  then show ?thesis
  proof cases
    case tx
    with assms have "do_BeginTx env r s = (r', s', None)"
      by (simp add: dispatch_def Cmd_defs)
    from do_BeginTx_effect [OF this] tx show ?thesis
      by (auto simp: keeps_def allocates_tx_def issues_def)
  next
    case bucket
    with assms have "do_Bucket env r s = (r', s', None)"
      by (simp add: dispatch_def Cmd_defs)
    from do_Bucket_effect [OF this] bucket show ?thesis
      by (auto simp: keeps_def allocates_bucket_def issues_def)
  next
    case cursor
    with assms have "do_Cursor env r s = (r', s', None)"
      by (simp add: dispatch_def Cmd_defs)
    from do_Cursor_effect [OF this] cursor show ?thesis
      by (auto simp: keeps_def allocates_cursor_def issues_def)
  next
    case other
    with assms have "keeps s s'"
      unfolding dispatch_def
      by (auto split: if_splits
          dest: do_Version_keeps do_LastError_keeps do_EndTx_keeps do_Get_keeps do_Seek_keeps
            do_Next_keeps)
    with other show ?thesis by (simp add: keeps_def)
  qed
qed

subsection \<open>Running many commands\<close>

lemma demo_BeginTx_round:
  "one_command demo_env (WUint 2 # r) s
     = Cont r (s\<lparr>world := (), lastError := None, deferred := () # deferred s,
                 lastHandle := lastHandle s + 1,
                 transactions := (transactions s)(lastHandle s + 1 \<mapsto> ()),
                 issued := issued s @ [lastHandle s + 1],
                 out := out s @ [WUint (lastHandle s + 1)]\<rparr>)"
  by (simp add: one_command_tag dispatch_def Cmd_defs do_BeginTx_def Let_def demo_env_def
      Encode_def encode_def)

lemma many_BeginTx:
  "\<exists>s'. Server_loop demo_env (replicate n (WUint 2) @ rest) s = Server_loop demo_env rest s' \<and>
        lastHandle s' = lastHandle s + of_nat n \<and>
        length (out s') = length (out s) + n \<and>
        (n = 0 \<longrightarrow> s' = s) \<and>
        (0 < n \<longrightarrow> lastError s' = None \<and> last (out s') = WUint (lastHandle s') \<and>
           last (issued s') = lastHandle s')"
proof (induction n arbitrary: s)
  case 0
  then show ?case by simp
next
  case (Suc n)
  let ?s1 = "s\<lparr>world := (), lastError := None, deferred := () # deferred s,
                 lastHandle := lastHandle s + 1,
                 transactions := (transactions s)(lastHandle s + 1 \<mapsto> ()),
                 issued := issued s @ [lastHandle s + 1],
                 out := out s @ [WUint (lastHandle s + 1)]\<rparr>"
  have first: "Server_loop demo_env (replicate (Suc n) (WUint 2) @ rest) s
      = Server_loop demo_env (replicate n (WUint 2) @ rest) ?s1"
    using Server_loop_Cont [OF demo_BeginTx_round [of "replicate n (WUint 2) @ rest" s]] by simp
  from Suc.IH [of ?s1] obtain s' where s':
    "Server_loop demo_env (replicate n (WUint 2) @ rest) ?s1 = Server_loop demo_env rest s'"
    "lastHandle s' = lastHandle ?s1 + of_nat n"
    "length (out s') = length (out ?s1) + n"
    "n = 0 \<longrightarrow> s' = ?s1"
    "0 < n \<longrightarrow> lastError s' = None \<and> last (out s') = WUint (lastHandle s') \<and>
       last (issued s') = lastHandle s'"
    by blast
  have "lastError s' = None \<and> last (out s') = WUint (lastHandle s') \<and>
      last (issued s') = lastHandle s'"
  proof (cases "n = 0")
    case True
    with s'(4) have "s' = ?s1" by simp
    then show ?thesis by simp
  next
    case False
    with s'(5) show ?thesis by simp
  qed
  moreover have "lastHandle s' = lastHandle s + of_nat (Suc n)"
    using s'(2) by simp
  moreover have "length (out s') = length (out s) + Suc n"
    using s'(3) by simp
  ultimately show ?case using first s'(1) by (intro exI [of _ s']) simp
qed

lemma Server_loop_after_rounds:
  "after_rounds env n inp s = Some (inp', s') \<Longrightarrow> Server_loop env inp s = Server_loop env inp' s'"
proof (induction n arbitrary: inp s)
  case 0
  then show ?case by simp
next
  case (Suc n)
  from Suc.prems obtain inp1 s1 where st: "one_command env inp s = Cont inp1 s1"
    and more: "after_rounds env n inp1 s1 = Some (inp', s')"
    by (auto split: round.splits)
  from Server_loop_Cont [OF st] Suc.IH [OF more] show ?case by simp
qed

lemma demo_Bucket_round:
  "transactions s t = Some () \<Longrightarrow>
   one_command demo_env (WUint 4 # WUint t # WBytes (Some [100, 97, 116, 97]) # r) s
     = Cont r (s\<lparr>lastHandle := lastHandle s + 1,
                 buckets := (buckets s)(lastHandle s + 1 \<mapsto> demo_items),
                 bucketsByTx := (bucketsByTx s)(t \<mapsto>
                   (case bucketsByTx s t of
                      Some bucketHandles \<Rightarrow> bucketHandles @ [lastHandle s + 1]
                    | None \<Rightarrow> [lastHandle s + 1])),
                 lastError := None,
                 issued := issued s @ [lastHandle s + 1],
                 out := out s @ [WUint (lastHandle s + 1)]\<rparr>)"
  by (simp add: one_command_tag dispatch_def Cmd_defs do_Bucket_def Let_def demo_env_def
      Encode_def encode_def)

lemma many_Bucket:
  "transactions s t = Some () \<Longrightarrow>
   \<exists>s'. Server_loop demo_env
            (concat (replicate n [WUint 4, WUint t, WBytes (Some [100, 97, 116, 97])]) @ rest) s
          = Server_loop demo_env rest s' \<and>
        lastHandle s' = lastHandle s + of_nat n \<and> transactions s' = transactions s \<and>
        (n = 0 \<longrightarrow> s' = s) \<and>
        (0 < n \<longrightarrow> buckets s' (lastHandle s') = Some demo_items)"
proof (induction n arbitrary: s)
  case 0
  then show ?case by simp
next
  case (Suc n)
  let ?s1 = "s\<lparr>lastHandle := lastHandle s + 1,
                 buckets := (buckets s)(lastHandle s + 1 \<mapsto> demo_items),
                 bucketsByTx := (bucketsByTx s)(t \<mapsto>
                   (case bucketsByTx s t of
                      Some bucketHandles \<Rightarrow> bucketHandles @ [lastHandle s + 1]
                    | None \<Rightarrow> [lastHandle s + 1])),
                 lastError := None,
                 issued := issued s @ [lastHandle s + 1],
                 out := out s @ [WUint (lastHandle s + 1)]\<rparr>"
  let ?cmds = "\<lambda>k. concat (replicate k [WUint 4, WUint t, WBytes (Some [100, 97, 116, 97])]) @ rest"
  have first: "Server_loop demo_env (?cmds (Suc n)) s = Server_loop demo_env (?cmds n) ?s1"
    using Server_loop_Cont [OF demo_Bucket_round [OF Suc.prems, of "?cmds n"]] by simp
  have "transactions ?s1 t = Some ()" using Suc.prems by simp
  from Suc.IH [OF this] obtain s' where s':
    "Server_loop demo_env (?cmds n) ?s1 = Server_loop demo_env rest s'"
    "lastHandle s' = lastHandle ?s1 + of_nat n" "transactions s' = transactions ?s1"
    "n = 0 \<longrightarrow> s' = ?s1"
    "0 < n \<longrightarrow> buckets s' (lastHandle s') = Some demo_items"
    by blast
  have "buckets s' (lastHandle s') = Some demo_items"
  proof (cases "n = 0")
    case True
    with s'(4) have "s' = ?s1" by simp
    then show ?thesis by simp
  next
    case False
    with s'(5) show ?thesis by simp
  qed
  moreover have "lastHandle s' = lastHandle s + of_nat (Suc n)" using s'(2) by simp
  moreover have "transactions s' = transactions s" using s'(3) by simp
  ultimately show ?case using first s'(1) by (intro exI [of _ s']) simp
qed

subsection \<open>The handles a session returns\<close>

text \<open>
  C4, as amended. In a session that has issued fewer than \<open>2 ^ 64\<close> handles, the handles
  issued so far are \<open>1, 2, \<dots>, k\<close> in this order, with \<open>k\<close> the value of \<^verbatim>\<open>lastHandle\<close>: they
  increase strictly, none is issued twice, none is 0, and no handle is in two of the
  registries of transactions, buckets and cursors. Whatever the session, \<^verbatim>\<open>BeginTx\<close>,
  \<^verbatim>\<open>Bucket\<close> and \<^verbatim>\<open>Cursor\<close> either fail (answer 0, \<^verbatim>\<open>lastError\<close> set, no handle issued) or
  issue \<^verbatim>\<open>lastHandle + 1\<close>, answer with it and register it for their kind of resource,
  and no other command issues a handle.
\<close>

theorem handles_from_one_counter:
  "(after_rounds env n inp (init db) = Some (inp', s) \<and> length (issued s) < 2 ^ 64 \<longrightarrow>
      issued s = map of_nat [1..<Suc (length (issued s))] \<and>
      lastHandle s = of_nat (length (issued s)) \<and>
      sorted_wrt (<) (issued s) \<and> distinct (issued s) \<and> 0 \<notin> set (issued s) \<and>
      dom (transactions s) \<inter> dom (buckets s) = {} \<and>
      dom (transactions s) \<inter> dom (cursors s) = {} \<and>
      dom (buckets s) \<inter> dom (cursors s) = {} \<and>
      dom (transactions s) \<union> dom (buckets s) \<union> dom (cursors s) \<subseteq> set (issued s)) \<and>
   (dispatch env c r s1 = (r', s2, None) \<longrightarrow>
      (if c = CmdBeginTx \<or> c = CmdBucket \<or> c = CmdCursor then
         issued s2 = issued s1 \<and> out s2 = out s1 @ [WUint 0] \<and> lastError s2 \<noteq> None \<or>
         issued s2 = issued s1 @ [lastHandle s1 + 1] \<and> lastHandle s2 = lastHandle s1 + 1 \<and>
           out s2 = out s1 @ [WUint (lastHandle s1 + 1)] \<and> lastError s2 = None \<and>
           (c = CmdBeginTx \<and> lastHandle s1 + 1 \<in> dom (transactions s2) \<or>
            c = CmdBucket \<and> lastHandle s1 + 1 \<in> dom (buckets s2) \<or>
            c = CmdCursor \<and> lastHandle s1 + 1 \<in> dom (cursors s2))
       else issued s2 = issued s1))"
proof (intro conjI impI)
  assume "dispatch env c r s1 = (r', s2, None)"
  then show "if c = CmdBeginTx \<or> c = CmdBucket \<or> c = CmdCursor then
         issued s2 = issued s1 \<and> out s2 = out s1 @ [WUint 0] \<and> lastError s2 \<noteq> None \<or>
         issued s2 = issued s1 @ [lastHandle s1 + 1] \<and> lastHandle s2 = lastHandle s1 + 1 \<and>
           out s2 = out s1 @ [WUint (lastHandle s1 + 1)] \<and> lastError s2 = None \<and>
           (c = CmdBeginTx \<and> lastHandle s1 + 1 \<in> dom (transactions s2) \<or>
            c = CmdBucket \<and> lastHandle s1 + 1 \<in> dom (buckets s2) \<or>
            c = CmdCursor \<and> lastHandle s1 + 1 \<in> dom (cursors s2))
       else issued s2 = issued s1"
    by (rule dispatch_issue)
next
  assume a: "after_rounds env n inp (init db) = Some (inp', s) \<and> length (issued s) < 2 ^ 64"
  then have reach: "after_rounds env n inp (init db) = Some (inp', s)"
    and small: "length (issued s) < 2 ^ 64"
    by simp_all
  have w: "wf s" using rounds_wf [OF wf_init reach] .
  have sep: "separate s" using rounds_separate [OF wf_init separate_init reach small] .
  show "issued s = map of_nat [1..<Suc (length (issued s))]" using w by (simp add: wf_def)
  show "lastHandle s = of_nat (length (issued s))" using w by (simp add: wf_def)
  show "sorted_wrt (<) (issued s)" "distinct (issued s)" "0 \<notin> set (issued s)"
    using no_wrap_facts [OF w small] by simp_all
  show "dom (transactions s) \<inter> dom (buckets s) = {}"
    "dom (transactions s) \<inter> dom (cursors s) = {}"
    "dom (buckets s) \<inter> dom (cursors s) = {}"
    using sep by (simp_all add: separate_def)
  show "dom (transactions s) \<union> dom (buckets s) \<union> dom (cursors s) \<subseteq> set (issued s)"
    using w by (simp add: wf_def registered_def)
qed

theorem handles_from_one_counter_witness:
  "after_rounds demo_env 4 demo_input (init ()) = Some ([], demo_session) \<and>
   length (issued demo_session) < 2 ^ 64 \<and>
   issued demo_session = [1, 2, 3] \<and>
   sorted_wrt (<) (issued demo_session) \<and> distinct (issued demo_session) \<and>
   0 \<notin> set (issued demo_session) \<and>
   dispatch demo_env CmdBeginTx [] demo_session
     = ([], demo_session\<lparr>deferred := [(), ()], lastHandle := 4,
              transactions := [1 \<mapsto> (), 4 \<mapsto> ()], issued := [1, 2, 3, 4],
              out := out demo_session @ [WUint 4]\<rparr>, None)"
proof -
  have reach: "after_rounds demo_env 4 demo_input (init ()) = Some ([], demo_session)"
    using demo_session_reached [of "[]"] by simp
  have small: "length (issued demo_session) < 2 ^ 64" by (simp add: demo_session_def)
  have d: "dispatch demo_env CmdBeginTx [] demo_session
     = ([], demo_session\<lparr>deferred := [(), ()], lastHandle := 4,
              transactions := [1 \<mapsto> (), 4 \<mapsto> ()], issued := [1, 2, 3, 4],
              out := out demo_session @ [WUint 4]\<rparr>, None)"
    by (simp add: dispatch_def Cmd_defs do_BeginTx_def Let_def demo_env_def Encode_def encode_def
        demo_session_def)
  have i: "issued demo_session = [1, 2, 3]" by (simp add: demo_session_def)
  from handles_from_one_counter [of demo_env 4 demo_input "()" "[]" demo_session CmdBeginTx "[]"
      demo_session "[]" "demo_session\<lparr>deferred := [(), ()], lastHandle := 4,
              transactions := [1 \<mapsto> (), 4 \<mapsto> ()], issued := [1, 2, 3, 4],
              out := out demo_session @ [WUint 4]\<rparr>"] reach small
  have "sorted_wrt (<) (issued demo_session) \<and> distinct (issued demo_session) \<and>
      0 \<notin> set (issued demo_session)"
    by blast
  with reach small d i show ?thesis by blast
qed

text \<open>
  C4 as stated fails when the 64-bit counter wraps around: after \<open>2 ^ 64\<close> commands
  \<^verbatim>\<open>BeginTx\<close> on the small store, every one answered, the last one succeeds
  (\<^verbatim>\<open>lastError\<close> is nil) and returns the handle 0.
\<close>

theorem handle_zero_after_wrap:
  "fst (Server demo_env () (replicate (2 ^ 64) (WUint 2))) = None \<and>
   lastError (snd (Server demo_env () (replicate (2 ^ 64) (WUint 2)))) = None \<and>
   length (out (snd (Server demo_env () (replicate (2 ^ 64) (WUint 2))))) = 2 ^ 64 \<and>
   last (out (snd (Server demo_env () (replicate (2 ^ 64) (WUint 2))))) = WUint 0 \<and>
   last (issued (snd (Server demo_env () (replicate (2 ^ 64) (WUint 2))))) = 0"
proof -
  from many_BeginTx [of "2 ^ 64" "[]" "init ()"] obtain s' where s':
    "Server_loop demo_env (replicate (2 ^ 64) (WUint 2)) (init ()) = Server_loop demo_env [] s'"
    "lastHandle s' = lastHandle (init () :: (unit, unit, pairs, pairs \<times> pairs) session) + of_nat (2 ^ 64)"
    "length (out s') = length (out (init () :: (unit, unit, pairs, pairs \<times> pairs) session)) + 2 ^ 64"
    "lastError s' = None \<and> last (out s') = WUint (lastHandle s') \<and> last (issued s') = lastHandle s'"
    by auto
  have zero: "lastHandle s' = 0" using s'(2) by (simp add: init_def)
  have run: "Server demo_env () (replicate (2 ^ 64) (WUint 2)) = (None, cleanup demo_env s')"
    using s'(1) by (simp add: Server_def Server_loop_Nil)
  show ?thesis
    using s'(3,4) zero unfolding run by (simp add: cleanup_def init_def)
qed

subsection \<open>EndTx and the handles it invalidates\<close>

lemma do_Version_quiet: "do_Version env inp s = (inp', s', None) \<Longrightarrow> quiet s s'"
  by (auto simp: do_Version_def quiet_def dest!: Encode_None)

lemma do_LastError_quiet: "do_LastError env inp s = (inp', s', None) \<Longrightarrow> quiet s s'"
  by (auto simp: do_LastError_def quiet_def dest!: Encode_None)

lemma do_BeginTx_quiet:
  assumes "do_BeginTx env inp s = (inp', s', None)"
  shows "quiet s s'"
proof (cases "db_Begin env (world s)")
  case (Pair r w)
  show ?thesis
  proof (cases r)
    case (Inl msg)
    with Pair assms have "Encode env (WUint 0) (s\<lparr>world := w, lastError := Some msg\<rparr>) = (s', None)"
      by (simp add: do_BeginTx_def)
    from Encode_None [OF this] show ?thesis by (simp add: quiet_def)
  next
    case (Inr tx)
    with Pair assms have "Encode env (WUint (lastHandle s + 1))
        (s\<lparr>world := w, lastError := None, deferred := tx # deferred s,
           lastHandle := lastHandle s + 1,
           transactions := (transactions s)(lastHandle s + 1 \<mapsto> tx),
           issued := issued s @ [lastHandle s + 1]\<rparr>) = (s', None)"
      by (simp add: do_BeginTx_def Let_def)
    from Encode_None [OF this] show ?thesis by (simp add: quiet_def)
  qed
qed

lemma do_Get_quiet:
  assumes "do_Get env inp s = (inp', s', None)"
  shows "quiet s s'"
proof -
  from assms obtain e v where "Encode env v (s\<lparr>lastError := e\<rparr>) = (s', None)"
    by (auto simp: do_Get_def split: prod.splits sum.splits option.splits)
  from Encode_None [OF this] show ?thesis by (simp add: quiet_def)
qed

lemma do_Seek_quiet:
  assumes "do_Seek env inp s = (inp', s', None)"
  shows "quiet s s'"
  using assms
  by (auto simp: do_Seek_def quiet_def split: prod.splits sum.splits option.splits if_splits
      dest!: Encode2_None)

lemma do_Next_quiet:
  assumes "do_Next env inp s = (inp', s', None)"
  shows "quiet s s'"
proof -
  from assms consider
    (known) h c w where "cursors s h \<noteq> None"
      "s' = s\<lparr>cursors := (cursors s)(h \<mapsto> c), out := w, lastError := None\<rparr>"
  | (unknown) e where "s' = s\<lparr>lastError := e\<rparr>"
    by (auto simp: do_Next_def Let_def split: prod.splits sum.splits option.splits)
  then show ?thesis
    by cases (auto simp: quiet_def)
qed

lemma do_EndTx_step:
  assumes "do_EndTx env inp s = (inp', s', None)"
  shows "quiet s s' \<or> (\<exists>t. ends s s' t)"
proof -
  from assms consider
    (known) t w where "transactions s t \<noteq> None"
      "s' = (remove_buckets t s)\<lparr>world := w,
         transactions := (transactions (remove_buckets t s))(t := None), lastError := None\<rparr>"
  | (unknown) e where "s' = s\<lparr>lastError := e\<rparr>"
    by (auto simp: do_EndTx_def Let_def split: prod.splits sum.splits option.splits)
  then show ?thesis
  proof cases
    case known
    then have "ends s s' t" by (simp add: ends_def)
    then show ?thesis by blast
  next
    case unknown
    then show ?thesis by (simp add: quiet_def)
  qed
qed

lemma do_Bucket_step:
  assumes "do_Bucket env inp s = (inp', s', None)"
  shows "quiet s s' \<or> allocates_bucket s s' (lastHandle s + 1)"
proof -
  from do_Bucket_effect [OF assms] show ?thesis
  proof
    assume k: "keeps s s' \<and> out s' = out s @ [WUint 0] \<and> lastError s' \<noteq> None"
    obtain x r where d1: "decode_uint64 inp = (x, r)" by (cases "decode_uint64 inp")
    obtain t where x: "x = Inr t" using assms d1 by (cases x) (auto simp: do_Bucket_def)
    obtain y r' where d2: "decode_bytes r = (y, r')" by (cases "decode_bytes r")
    obtain name where y: "y = Inr name" using assms d1 x d2 by (cases y) (auto simp: do_Bucket_def)
    note unfold = do_Bucket_def d1 x d2 y
    show ?thesis
    proof (cases "transactions s t")
      case None
      with assms have "Encode env (WUint 0) (s\<lparr>lastError := Some ''transaction not found''\<rparr>)
          = (s', None)"
        by (simp add: unfold)
      from Encode_None [OF this] show ?thesis by (simp add: quiet_def)
    next
      case known: (Some tx)
      show ?thesis
      proof (cases "tx_Bucket env tx name")
        case None
        with assms known have "Encode env (WUint 0) (s\<lparr>lastError := Some ''bucket not found''\<rparr>)
            = (s', None)"
          by (simp add: unfold)
        from Encode_None [OF this] show ?thesis by (simp add: quiet_def)
      next
        case (Some bucket)
        with assms known have "Encode env (WUint (lastHandle s + 1))
            (s\<lparr>lastHandle := lastHandle s + 1,
               buckets := (buckets s)(lastHandle s + 1 \<mapsto> bucket),
               bucketsByTx := (bucketsByTx s)(t \<mapsto>
                 (case bucketsByTx s t of
                    Some bucketHandles \<Rightarrow> bucketHandles @ [lastHandle s + 1]
                  | None \<Rightarrow> [lastHandle s + 1])),
               lastError := None,
               issued := issued s @ [lastHandle s + 1]\<rparr>) = (s', None)"
          by (simp add: unfold Let_def)
        from Encode_None [OF this] have "lastError s' = None" by simp
        with k show ?thesis by simp
      qed
    qed
  next
    assume "allocates_bucket s s' (lastHandle s + 1)"
    then show ?thesis ..
  qed
qed

lemma do_Cursor_step:
  assumes "do_Cursor env inp s = (inp', s', None)"
  shows "quiet s s' \<or> allocates_cursor s s' (lastHandle s + 1)"
proof -
  from do_Cursor_effect [OF assms] show ?thesis
  proof
    assume k: "keeps s s' \<and> out s' = out s @ [WUint 0] \<and> lastError s' \<noteq> None"
    obtain x r where d1: "decode_uint64 inp = (x, r)" by (cases "decode_uint64 inp")
    obtain b where x: "x = Inr b" using assms d1 by (cases x) (auto simp: do_Cursor_def)
    note unfold = do_Cursor_def d1 x
    show ?thesis
    proof (cases "buckets s b")
      case None
      with assms have "Encode env (WUint 0) (s\<lparr>lastError := Some ''bucket not found''\<rparr>)
          = (s', None)"
        by (simp add: unfold)
      from Encode_None [OF this] show ?thesis by (simp add: quiet_def)
    next
      case (Some bucket)
      with assms have "Encode env (WUint (lastHandle s + 1))
          (s\<lparr>lastHandle := lastHandle s + 1,
             cursors := (cursors s)(lastHandle s + 1 \<mapsto> bucket_Cursor env bucket),
             cursorsByBucket := (cursorsByBucket s)(b \<mapsto>
               (case cursorsByBucket s b of
                  Some cursorHandles \<Rightarrow> cursorHandles @ [lastHandle s + 1]
                | None \<Rightarrow> [lastHandle s + 1])),
             lastError := None,
             issued := issued s @ [lastHandle s + 1]\<rparr>) = (s', None)"
        by (simp add: unfold Let_def)
      from Encode_None [OF this] have "lastError s' = None" by simp
      with k show ?thesis by simp
    qed
  next
    assume "allocates_cursor s s' (lastHandle s + 1)"
    then show ?thesis ..
  qed
qed

lemma dispatch_step: "dispatch env c inp s = (inp', s', None) \<Longrightarrow> handles_step s s'"
  unfolding dispatch_def handles_step_def
  by (auto split: if_splits
      dest: do_Version_quiet do_LastError_quiet do_BeginTx_quiet do_EndTx_step do_Bucket_step
        do_Get_quiet do_Cursor_step do_Seek_quiet do_Next_quiet)

lemma one_command_step: "one_command env inp s = Cont inp' s' \<Longrightarrow> handles_step s s'"
  by (auto simp: one_command_def split: prod.splits sum.splits option.splits if_splits
      dest: dispatch_step)

lemma step_keeps_bucket_index:
  assumes "handles_step s s'" "indexed_bucket s t b" "buckets s' b \<noteq> None"
  shows "indexed_bucket s' t b"
proof -
  from assms(2) obtain bs where bs: "bucketsByTx s t = Some bs" "b \<in> set bs"
    by (auto simp: indexed_bucket_def split: option.splits)
  from assms(1) consider (q) "quiet s s'" | (e) u where "ends s s' u"
    | (b) "allocates_bucket s s' (lastHandle s + 1)"
    | (c) "allocates_cursor s s' (lastHandle s + 1)"
    unfolding handles_step_def by blast
  then show ?thesis
  proof cases
    case q
    then show ?thesis using bs by (simp add: quiet_def indexed_bucket_def)
  next
    case e
    have "u \<noteq> t"
    proof
      assume "u = t"
      then have "buckets s' b = None"
        using e bs by (simp add: ends_def remove_buckets_buckets)
      with assms(3) show False by simp
    qed
    then show ?thesis using e bs by (simp add: ends_def remove_buckets_simps indexed_bucket_def)
  next
    case b
    then obtain u where
      "bucketsByTx s' = (bucketsByTx s)(u \<mapsto>
         (case bucketsByTx s u of Some bs \<Rightarrow> bs @ [lastHandle s + 1]
          | None \<Rightarrow> [lastHandle s + 1]))"
      by (auto simp: allocates_bucket_def)
    then show ?thesis using bs by (auto simp: indexed_bucket_def)
  next
    case c
    then show ?thesis using bs by (simp add: allocates_cursor_def indexed_bucket_def)
  qed
qed

lemma step_keeps_cursor_index:
  assumes "handles_step s s'" "indexed_cursor s b c" "buckets s b \<noteq> None" "cursors s' c \<noteq> None"
  shows "indexed_cursor s' b c \<and> buckets s' b \<noteq> None"
proof -
  from assms(2) obtain cs where cs: "cursorsByBucket s b = Some cs" "c \<in> set cs"
    by (auto simp: indexed_cursor_def split: option.splits)
  from assms(1) consider (q) "quiet s s'" | (e) u where "ends s s' u"
    | (b) "allocates_bucket s s' (lastHandle s + 1)"
    | (c) "allocates_cursor s s' (lastHandle s + 1)"
    unfolding handles_step_def by blast
  then show ?thesis
  proof cases
    case q
    then show ?thesis using cs assms(3) by (simp add: quiet_def indexed_cursor_def)
  next
    case e
    have out: "b \<notin> set bs" if "bucketsByTx s u = Some bs" for bs
    proof
      assume "b \<in> set bs"
      from remove_buckets_cursors_owned [OF that this cs]
      have "cursors s' c = None" using e by (simp add: ends_def)
      with assms(4) show False by simp
    qed
    show ?thesis
    proof (cases "bucketsByTx s u")
      case None
      then show ?thesis using e cs assms(3)
        by (simp add: ends_def remove_buckets_index remove_buckets_buckets indexed_cursor_def)
    next
      case (Some bs)
      with out [OF Some] show ?thesis using e cs assms(3)
        by (simp add: ends_def remove_buckets_index remove_buckets_buckets indexed_cursor_def)
    qed
  next
    case b
    then have "cursorsByBucket s' = cursorsByBucket s"
      "dom (buckets s') = insert (lastHandle s + 1) (dom (buckets s))"
      by (simp_all add: allocates_bucket_def)
    moreover have "b \<in> dom (buckets s)" using assms(3) by (simp add: domIff)
    ultimately have "cursorsByBucket s' = cursorsByBucket s" "b \<in> dom (buckets s')" by simp_all
    then show ?thesis using cs by (simp add: indexed_cursor_def domIff)
  next
    case c
    then obtain u where
      "cursorsByBucket s' = (cursorsByBucket s)(u \<mapsto>
         (case cursorsByBucket s u of Some cs \<Rightarrow> cs @ [lastHandle s + 1]
          | None \<Rightarrow> [lastHandle s + 1]))"
      and "buckets s' = buckets s"
      by (auto simp: allocates_cursor_def)
    then show ?thesis using cs assms(3) by (auto simp: indexed_cursor_def)
  qed
qed

lemma step_tidy:
  assumes "handles_step s s'" "tidy s"
  shows "tidy s'"
proof -
  from assms(1) consider (q) "quiet s s'" | (e) u where "ends s s' u"
    | (b) "allocates_bucket s s' (lastHandle s + 1)"
    | (c) "allocates_cursor s s' (lastHandle s + 1)"
    unfolding handles_step_def by blast
  then show ?thesis
  proof cases
    case q
    then show ?thesis using assms(2) by (simp add: quiet_def tidy_def)
  next
    case e
    then show ?thesis using assms(2)
      by (auto simp: ends_def tidy_def remove_buckets_index remove_buckets_buckets
          split: option.splits if_splits)
  next
    case b
    then have i: "cursorsByBucket s' = cursorsByBucket s"
      and d: "dom (buckets s') = insert (lastHandle s + 1) (dom (buckets s))"
      by (simp_all add: allocates_bucket_def)
    show ?thesis
      unfolding tidy_def
    proof (intro allI impI)
      fix x assume "cursorsByBucket s' x \<noteq> None"
      then have "buckets s x \<noteq> None" using assms(2) i by (simp add: tidy_def)
      then have "x \<in> dom (buckets s')" using d by (simp add: domIff)
      then show "buckets s' x \<noteq> None" by (simp add: domIff)
    qed
  next
    case c
    then obtain u where u: "buckets s u \<noteq> None"
      "cursorsByBucket s' = (cursorsByBucket s)(u \<mapsto>
         (case cursorsByBucket s u of Some cs \<Rightarrow> cs @ [lastHandle s + 1]
          | None \<Rightarrow> [lastHandle s + 1]))"
      and same: "buckets s' = buckets s"
      by (auto simp: allocates_cursor_def)
    show ?thesis
      unfolding tidy_def
    proof (intro allI impI)
      fix x assume x: "cursorsByBucket s' x \<noteq> None"
      show "buckets s' x \<noteq> None"
      proof (cases "x = u")
        case True
        then show ?thesis using u(1) same by simp
      next
        case False
        then have "cursorsByBucket s x \<noteq> None" using x u(2) by simp
        then show ?thesis using assms(2) same by (simp add: tidy_def)
      qed
    qed
  qed
qed

lemma tidy_init: "tidy (init db)"
  by (simp add: tidy_def init_def)

lemma effect_issued_mono: "effect s s' \<Longrightarrow> set (issued s) \<subseteq> set (issued s')"
  using effect_issued [of s s'] by auto

lemma after_rounds_add:
  "after_rounds env n inp s = Some (inp1, s1) \<Longrightarrow>
   after_rounds env (n + m) inp s = after_rounds env m inp1 s1"
  by (induction n arbitrary: inp s) (auto split: round.splits)

lemma after_rounds_snoc:
  "after_rounds env n inp s = Some (inp1, s1) \<Longrightarrow> one_command env inp1 s1 = Cont inp2 s2 \<Longrightarrow>
   after_rounds env (Suc n) inp s = Some (inp2, s2)"
  using after_rounds_add [of env n inp s inp1 s1 1] by simp

lemma rounds_tidy:
  "tidy s \<Longrightarrow> after_rounds env n inp s = Some (inp', s') \<Longrightarrow> tidy s'"
proof (induction n arbitrary: inp s)
  case 0
  then show ?case by simp
next
  case (Suc n)
  from Suc.prems(2) obtain inp1 s1 where st: "one_command env inp s = Cont inp1 s1"
    and more: "after_rounds env n inp1 s1 = Some (inp', s')"
    by (auto split: round.splits)
  from step_tidy [OF one_command_step [OF st] Suc.prems(1)] Suc.IH more show ?case by blast
qed

lemma rounds_issued:
  "after_rounds env n inp s = Some (inp', s') \<Longrightarrow> set (issued s) \<subseteq> set (issued s')"
proof (induction n arbitrary: inp s)
  case 0
  then show ?case by simp
next
  case (Suc n)
  from Suc.prems obtain inp1 s1 where st: "one_command env inp s = Cont inp1 s1"
    and more: "after_rounds env n inp1 s1 = Some (inp', s')"
    by (auto split: round.splits)
  from effect_issued_mono [OF one_command_effect [OF st]] Suc.IH [OF more] show ?case by blast
qed

text \<open>
  For as long as the counter has not wrapped around, a bucket that is still registered
  is still in the index of the transaction it was opened in, and a cursor that is still
  registered is still in the index of its bucket, which is still registered.
\<close>

lemma rounds_owned_bucket:
  "wf s \<Longrightarrow> b \<in> set (issued s) \<Longrightarrow> (buckets s b \<noteq> None \<longrightarrow> indexed_bucket s t b) \<Longrightarrow>
   after_rounds env n inp s = Some (inp', s') \<Longrightarrow> length (issued s') < 2 ^ 64 \<Longrightarrow>
   buckets s' b \<noteq> None \<longrightarrow> indexed_bucket s' t b"
proof (induction n arbitrary: inp s)
  case 0
  then show ?case by simp
next
  case (Suc n)
  from Suc.prems(4) obtain inp1 s1 where st: "one_command env inp s = Cont inp1 s1"
    and more: "after_rounds env n inp1 s1 = Some (inp', s')"
    by (auto split: round.splits)
  note e = one_command_effect [OF st]
  have small: "length (issued s1) < 2 ^ 64"
    using rounds_length [OF more] Suc.prems(5) by simp
  have w1: "wf s1" using wf_effect [OF Suc.prems(1) e] .
  have i1: "b \<in> set (issued s1)" using effect_issued_mono [OF e] Suc.prems(2) by blast
  have "buckets s1 b \<noteq> None \<longrightarrow> indexed_bucket s1 t b"
  proof
    assume live: "buckets s1 b \<noteq> None"
    have "buckets s b \<noteq> None"
    proof
      assume "buckets s b = None"
      from dead_bucket_effect [OF Suc.prems(1,2) this e small] live show False by simp
    qed
    with Suc.prems(3) have "indexed_bucket s t b" by simp
    from step_keeps_bucket_index [OF one_command_step [OF st] this live]
    show "indexed_bucket s1 t b" .
  qed
  from Suc.IH [OF w1 i1 this more Suc.prems(5)] show ?case .
qed

lemma rounds_owned_cursor:
  "wf s \<Longrightarrow> c \<in> set (issued s) \<Longrightarrow>
   (cursors s c \<noteq> None \<longrightarrow> indexed_cursor s b c \<and> buckets s b \<noteq> None) \<Longrightarrow>
   after_rounds env n inp s = Some (inp', s') \<Longrightarrow> length (issued s') < 2 ^ 64 \<Longrightarrow>
   cursors s' c \<noteq> None \<longrightarrow> indexed_cursor s' b c \<and> buckets s' b \<noteq> None"
proof (induction n arbitrary: inp s)
  case 0
  then show ?case by simp
next
  case (Suc n)
  from Suc.prems(4) obtain inp1 s1 where st: "one_command env inp s = Cont inp1 s1"
    and more: "after_rounds env n inp1 s1 = Some (inp', s')"
    by (auto split: round.splits)
  note e = one_command_effect [OF st]
  have small: "length (issued s1) < 2 ^ 64"
    using rounds_length [OF more] Suc.prems(5) by simp
  have w1: "wf s1" using wf_effect [OF Suc.prems(1) e] .
  have i1: "c \<in> set (issued s1)" using effect_issued_mono [OF e] Suc.prems(2) by blast
  have "cursors s1 c \<noteq> None \<longrightarrow> indexed_cursor s1 b c \<and> buckets s1 b \<noteq> None"
  proof
    assume live: "cursors s1 c \<noteq> None"
    have "cursors s c \<noteq> None"
    proof
      assume "cursors s c = None"
      from dead_cursor_effect [OF Suc.prems(1,2) this e small] live show False by simp
    qed
    with Suc.prems(3) have "indexed_cursor s b c" "buckets s b \<noteq> None" by simp_all
    from step_keeps_cursor_index [OF one_command_step [OF st] this live]
    show "indexed_cursor s1 b c \<and> buckets s1 b \<noteq> None" .
  qed
  from Suc.IH [OF w1 i1 this more Suc.prems(5)] show ?case .
qed

lemma Bucket_returns_facts:
  assumes "Bucket_returns env s t name rest b s'"
  shows "b = lastHandle s + 1" and "buckets s' b \<noteq> None" and "indexed_bucket s' t b"
    and "b \<in> set (issued s')"
proof -
  from assms have d: "do_Bucket env (WUint t # WBytes name # rest) s = (rest, s', None)"
    and ok: "lastError s' = None" and o: "out s' = out s @ [WUint b]"
    by (simp_all add: Bucket_returns_def one_command_Cont dispatch_def Cmd_defs)
  have all: "b = lastHandle s + 1 \<and> buckets s' b \<noteq> None \<and> indexed_bucket s' t b \<and>
      b \<in> set (issued s')"
  proof (cases "transactions s t")
    case None
    with d have "Encode env (WUint 0) (s\<lparr>lastError := Some ''transaction not found''\<rparr>)
        = (s', None)"
      by (simp add: do_Bucket_def)
    from Encode_None [OF this] ok show ?thesis by simp
  next
    case known: (Some tx)
    show ?thesis
    proof (cases "tx_Bucket env tx name")
      case None
      with d known have "Encode env (WUint 0) (s\<lparr>lastError := Some ''bucket not found''\<rparr>)
          = (s', None)"
        by (simp add: do_Bucket_def)
      from Encode_None [OF this] ok show ?thesis by simp
    next
      case (Some bucket)
      with d known have "Encode env (WUint (lastHandle s + 1))
          (s\<lparr>lastHandle := lastHandle s + 1,
             buckets := (buckets s)(lastHandle s + 1 \<mapsto> bucket),
             bucketsByTx := (bucketsByTx s)(t \<mapsto>
               (case bucketsByTx s t of
                  Some bucketHandles \<Rightarrow> bucketHandles @ [lastHandle s + 1]
                | None \<Rightarrow> [lastHandle s + 1])),
             lastError := None,
             issued := issued s @ [lastHandle s + 1]\<rparr>) = (s', None)"
        by (simp add: do_Bucket_def Let_def)
      from Encode_None [OF this] o show ?thesis
        by (auto simp: indexed_bucket_def split: option.splits)
    qed
  qed
  from all show "b = lastHandle s + 1" by blast
  from all show "buckets s' b \<noteq> None" by blast
  from all show "indexed_bucket s' t b" by blast
  from all show "b \<in> set (issued s')" by blast
qed

lemma Cursor_returns_facts:
  assumes "Cursor_returns env s b rest c s'"
  shows "c = lastHandle s + 1" and "cursors s' c \<noteq> None" and "indexed_cursor s' b c"
    and "buckets s' b \<noteq> None" and "c \<in> set (issued s')"
proof -
  from assms have d: "do_Cursor env (WUint b # rest) s = (rest, s', None)"
    and ok: "lastError s' = None" and o: "out s' = out s @ [WUint c]"
    by (simp_all add: Cursor_returns_def one_command_Cont dispatch_def Cmd_defs)
  have all: "c = lastHandle s + 1 \<and> cursors s' c \<noteq> None \<and> indexed_cursor s' b c \<and>
      buckets s' b \<noteq> None \<and> c \<in> set (issued s')"
  proof (cases "buckets s b")
    case None
    with d have "Encode env (WUint 0) (s\<lparr>lastError := Some ''bucket not found''\<rparr>)
        = (s', None)"
      by (simp add: do_Cursor_def)
    from Encode_None [OF this] ok show ?thesis by simp
  next
    case (Some bucket)
    with d have "Encode env (WUint (lastHandle s + 1))
        (s\<lparr>lastHandle := lastHandle s + 1,
           cursors := (cursors s)(lastHandle s + 1 \<mapsto> bucket_Cursor env bucket),
           cursorsByBucket := (cursorsByBucket s)(b \<mapsto>
             (case cursorsByBucket s b of
                Some cursorHandles \<Rightarrow> cursorHandles @ [lastHandle s + 1]
              | None \<Rightarrow> [lastHandle s + 1])),
           lastError := None,
           issued := issued s @ [lastHandle s + 1]\<rparr>) = (s', None)"
      by (simp add: do_Cursor_def Let_def)
    from Encode_None [OF this] o Some show ?thesis
      by (auto simp: indexed_cursor_def split: option.splits)
  qed
  from all show "c = lastHandle s + 1" by blast
  from all show "cursors s' c \<noteq> None" by blast
  from all show "indexed_cursor s' b c" by blast
  from all show "buckets s' b \<noteq> None" by blast
  from all show "c \<in> set (issued s')" by blast
qed

lemma EndTx_succeeds_facts:
  assumes "EndTx_succeeds env s t rest s'"
  shows "\<exists>tx w. transactions s t = Some tx \<and> tx_Rollback env tx (world s) = (None, w) \<and>
     s' = (remove_buckets t s)\<lparr>world := w,
            transactions := (transactions (remove_buckets t s))(t := None), lastError := None\<rparr>"
proof -
  from assms have d: "do_EndTx env (WUint t # rest) s = (rest, s', None)"
    and ok: "lastError s' = None"
    by (simp_all add: EndTx_succeeds_def one_command_Cont dispatch_def Cmd_defs)
  obtain tx where tx: "transactions s t = Some tx"
    using d ok by (cases "transactions s t") (auto simp: do_EndTx_def)
  obtain rb w where rb: "tx_Rollback env tx (world (remove_buckets t s)) = (rb, w)"
    by (cases "tx_Rollback env tx (world (remove_buckets t s))")
  have rb_None: "rb = None"
    using d tx rb by (cases rb) (auto simp: do_EndTx_def Let_def)
  have "s' = (remove_buckets t s)\<lparr>world := w,
      transactions := (transactions (remove_buckets t s))(t := None), lastError := None\<rparr>"
    using d tx rb rb_None by (simp add: do_EndTx_def Let_def)
  moreover have "tx_Rollback env tx (world s) = (None, w)"
    using rb rb_None by (simp add: remove_buckets_simps)
  ultimately show ?thesis using tx by blast
qed

text \<open>Commands on a handle that is no bucket, or no cursor.\<close>

lemma Get_no_bucket:
  "buckets s b = None \<Longrightarrow>
   one_command env (WUint 5 # WUint b # WBytes key # r) s
     = (if write_ok env (out s) (WBytes None)
        then Cont r (s\<lparr>lastError := Some ''bucket not found'', out := out s @ [WBytes None]\<rparr>)
        else Halt (Some EncodeFailure) (s\<lparr>lastError := Some ''bucket not found''\<rparr>))"
  by (simp add: one_command_tag dispatch_def Cmd_defs do_Get_def Encode_def encode_def)

lemma Cursor_no_bucket:
  "buckets s b = None \<Longrightarrow>
   one_command env (WUint 6 # WUint b # r) s
     = (if write_ok env (out s) (WUint 0)
        then Cont r (s\<lparr>lastError := Some ''bucket not found'', out := out s @ [WUint 0]\<rparr>)
        else Halt (Some EncodeFailure) (s\<lparr>lastError := Some ''bucket not found''\<rparr>))"
  by (simp add: one_command_tag dispatch_def Cmd_defs do_Cursor_def Encode_def encode_def)

lemma Seek_no_cursor:
  "cursors s c = None \<Longrightarrow>
   one_command env (WUint 7 # WUint c # WBytes key # r) s
     = (if write_ok env (out s) (WBytes None)
        then if write_ok env (out s @ [WBytes None]) (WBytes None)
          then Cont r (s\<lparr>lastError := Some ''cursor not found'',
                         out := out s @ [WBytes None, WBytes None]\<rparr>)
          else Halt (Some EncodeFailure)
                 (s\<lparr>lastError := Some ''cursor not found'', out := out s @ [WBytes None]\<rparr>)
        else Halt (Some EncodeFailure) (s\<lparr>lastError := Some ''cursor not found''\<rparr>))"
  by (simp add: one_command_tag dispatch_def Cmd_defs do_Seek_def Encode2_def Encode_def
      encode_def)

lemma Next_no_cursor:
  "cursors s c = None \<Longrightarrow>
   one_command env (WUint 8 # WUint c # r) s
     = Cont (snd (decode_uint64 r)) (s\<lparr>lastError := Some ''cursor not found''\<rparr>)"
  by (simp add: one_command_tag dispatch_def Cmd_defs do_Next_def Let_def split: prod.splits)

lemma EndTx_kills_bucket:
  assumes w: "wf s" and i: "b \<in> set (issued s)"
    and own: "buckets s b \<noteq> None \<longrightarrow> indexed_bucket s t b"
    and tidy: "tidy s"
    and endtx: "EndTx_succeeds env s t rest s1"
    and later: "after_rounds env n rest s1 = Some (inp2, s2)"
    and small: "length (issued s2) < 2 ^ 64"
  shows "(\<exists>tx. transactions s t = Some tx \<and> tx_Rollback env tx (world s) = (None, world s1)) \<and>
     transactions s1 t = None \<and> bucketsByTx s1 t = None \<and>
     buckets s1 b = None \<and> cursorsByBucket s1 b = None \<and> buckets s2 b = None"
proof -
  from EndTx_succeeds_facts [OF endtx] obtain tx w' where tx: "transactions s t = Some tx"
    and rb: "tx_Rollback env tx (world s) = (None, w')"
    and s1: "s1 = (remove_buckets t s)\<lparr>world := w',
        transactions := (transactions (remove_buckets t s))(t := None), lastError := None\<rparr>"
    by blast
  from endtx have st: "one_command env (WUint 3 # WUint t # rest) s = Cont rest s1"
    by (simp add: EndTx_succeeds_def)
  have w1: "wf s1" using wf_effect [OF w one_command_effect [OF st]] .
  have i1: "b \<in> set (issued s1)" using i by (simp add: s1 remove_buckets_simps)
  have "buckets (remove_buckets t s) b = None"
    using own by (auto simp: remove_buckets_buckets indexed_bucket_def split: option.splits)
  then have b1: "buckets s1 b = None" by (simp add: s1)
  have "cursorsByBucket s b \<noteq> None \<longrightarrow> indexed_bucket s t b"
    using own tidy by (simp add: tidy_def)
  then have "cursorsByBucket (remove_buckets t s) b = None"
    by (auto simp: remove_buckets_index indexed_bucket_def split: option.splits)
  then have c1: "cursorsByBucket s1 b = None" by (simp add: s1)
  have b2: "buckets s2 b = None"
    using rounds_dead_bucket [OF w1 i1 b1 later small] .
  have "transactions s1 t = None" "bucketsByTx s1 t = None"
    by (simp_all add: s1 remove_buckets_simps)
  moreover have "\<exists>tx. transactions s t = Some tx \<and> tx_Rollback env tx (world s) = (None, world s1)"
    using tx rb by (simp add: s1)
  ultimately show ?thesis using b1 c1 b2 by blast
qed

lemma EndTx_kills_cursor:
  assumes w: "wf s" and i: "c \<in> set (issued s)"
    and own_b: "buckets s b \<noteq> None \<longrightarrow> indexed_bucket s t b"
    and own_c: "cursors s c \<noteq> None \<longrightarrow> indexed_cursor s b c \<and> buckets s b \<noteq> None"
    and endtx: "EndTx_succeeds env s t rest s1"
    and later: "after_rounds env n rest s1 = Some (inp2, s2)"
    and small: "length (issued s2) < 2 ^ 64"
  shows "cursors s1 c = None \<and> cursors s2 c = None"
proof -
  from EndTx_succeeds_facts [OF endtx] obtain tx w' where
    s1: "s1 = (remove_buckets t s)\<lparr>world := w',
        transactions := (transactions (remove_buckets t s))(t := None), lastError := None\<rparr>"
    by blast
  from endtx have st: "one_command env (WUint 3 # WUint t # rest) s = Cont rest s1"
    by (simp add: EndTx_succeeds_def)
  have w1: "wf s1" using wf_effect [OF w one_command_effect [OF st]] .
  have i1: "c \<in> set (issued s1)" using i by (simp add: s1 remove_buckets_simps)
  have "cursors (remove_buckets t s) c = None"
  proof (cases "cursors s c")
    case None
    then show ?thesis by (rule remove_buckets_cursors_None)
  next
    case (Some cursor)
    with own_c have "indexed_cursor s b c" "buckets s b \<noteq> None" by simp_all
    with own_b have "indexed_bucket s t b" by simp
    then obtain bs where bs: "bucketsByTx s t = Some bs" "b \<in> set bs"
      by (auto simp: indexed_bucket_def split: option.splits)
    from \<open>indexed_cursor s b c\<close> obtain cs where cs: "cursorsByBucket s b = Some cs" "c \<in> set cs"
      by (auto simp: indexed_cursor_def split: option.splits)
    from remove_buckets_cursors_owned [OF bs cs] show ?thesis .
  qed
  then have c1: "cursors s1 c = None" by (simp add: s1)
  from rounds_dead_cursor [OF w1 i1 c1 later small] c1 show ?thesis by simp
qed

text \<open>
  C3, as amended. In a session, let a \<^verbatim>\<open>Bucket(t, name)\<close> command return the handle \<open>b\<close>
  and let a later \<^verbatim>\<open>EndTx(t)\<close> succeed. Then the transaction was rolled back, \<open>t\<close> and \<open>b\<close>
  and their index entries are removed, and after any further rounds, as long as the
  session has issued fewer than \<open>2 ^ 64\<close> handles, \<open>b\<close> is no bucket: \<^verbatim>\<open>Get\<close> and \<^verbatim>\<open>Cursor\<close>
  on \<open>b\<close> set \<^verbatim>\<open>lastError\<close> to \<^verbatim>\<open>bucket not found\<close> and answer with the placeholder (the
  round goes on unless the writer refuses the placeholder). If moreover, before that
  \<^verbatim>\<open>EndTx(t)\<close>, a \<^verbatim>\<open>Cursor(b)\<close> command returned the handle \<open>c\<close>, then \<open>c\<close> is no cursor from
  the \<^verbatim>\<open>EndTx\<close> on: \<^verbatim>\<open>Seek\<close> and \<^verbatim>\<open>Next\<close> on \<open>c\<close> set \<^verbatim>\<open>lastError\<close> to
  \<^verbatim>\<open>cursor not found\<close>. Ownership is by creation: \<open>b\<close> and \<open>c\<close> are the handles that the
  commands returned, not entries assumed in the indices.
\<close>

theorem EndTx_invalidates:
  assumes reach: "after_rounds env n0 inp0 (init db)
      = Some (WUint 4 # WUint t # WBytes name # inp1, sA)"
    and bucket: "Bucket_returns env sA t name inp1 b sB"
  shows
    "(after_rounds env n1 inp1 sB = Some (WUint 3 # WUint t # inp2, sE) \<and>
      EndTx_succeeds env sE t inp2 sF \<and>
      after_rounds env n2 inp2 sF = Some (inp3, s2) \<and> length (issued s2) < 2 ^ 64 \<longrightarrow>
        (\<exists>tx. transactions sE t = Some tx \<and> tx_Rollback env tx (world sE) = (None, world sF)) \<and>
        transactions sF t = None \<and> bucketsByTx sF t = None \<and>
        buckets sF b = None \<and> cursorsByBucket sF b = None \<and> buckets s2 b = None \<and>
        (\<forall>key r. one_command env (WUint 5 # WUint b # WBytes key # r) s2
           = (if write_ok env (out s2) (WBytes None)
              then Cont r (s2\<lparr>lastError := Some ''bucket not found'',
                             out := out s2 @ [WBytes None]\<rparr>)
              else Halt (Some EncodeFailure) (s2\<lparr>lastError := Some ''bucket not found''\<rparr>))) \<and>
        (\<forall>r. one_command env (WUint 6 # WUint b # r) s2
           = (if write_ok env (out s2) (WUint 0)
              then Cont r (s2\<lparr>lastError := Some ''bucket not found'',
                             out := out s2 @ [WUint 0]\<rparr>)
              else Halt (Some EncodeFailure) (s2\<lparr>lastError := Some ''bucket not found''\<rparr>)))) \<and>
     (after_rounds env m1 inp1 sB = Some (WUint 6 # WUint b # inp4, sC) \<and>
      Cursor_returns env sC b inp4 c sD \<and>
      after_rounds env m2 inp4 sD = Some (WUint 3 # WUint t # inp5, sG) \<and>
      EndTx_succeeds env sG t inp5 sH \<and>
      after_rounds env m3 inp5 sH = Some (inp6, s3) \<and> length (issued s3) < 2 ^ 64 \<longrightarrow>
        cursors sH c = None \<and> cursors s3 c = None \<and>
        (\<forall>key r. one_command env (WUint 7 # WUint c # WBytes key # r) s3
           = (if write_ok env (out s3) (WBytes None)
              then if write_ok env (out s3 @ [WBytes None]) (WBytes None)
                then Cont r (s3\<lparr>lastError := Some ''cursor not found'',
                               out := out s3 @ [WBytes None, WBytes None]\<rparr>)
                else Halt (Some EncodeFailure)
                       (s3\<lparr>lastError := Some ''cursor not found'',
                          out := out s3 @ [WBytes None]\<rparr>)
              else Halt (Some EncodeFailure) (s3\<lparr>lastError := Some ''cursor not found''\<rparr>))) \<and>
        (\<forall>r. one_command env (WUint 8 # WUint c # r) s3
           = Cont (snd (decode_uint64 r)) (s3\<lparr>lastError := Some ''cursor not found''\<rparr>)))"
proof (rule conjI; rule impI)
  have wA: "wf sA" using rounds_wf [OF wf_init reach] .
  have tA: "tidy sA" using rounds_tidy [OF tidy_init reach] .
  from bucket have stA: "one_command env (WUint 4 # WUint t # WBytes name # inp1) sA = Cont inp1 sB"
    by (simp add: Bucket_returns_def)
  have wB: "wf sB" using wf_effect [OF wA one_command_effect [OF stA]] .
  have tB: "tidy sB" using step_tidy [OF one_command_step [OF stA] tA] .
  note fB = Bucket_returns_facts [OF bucket]
  {
    assume "after_rounds env n1 inp1 sB = Some (WUint 3 # WUint t # inp2, sE) \<and>
      EndTx_succeeds env sE t inp2 sF \<and>
      after_rounds env n2 inp2 sF = Some (inp3, s2) \<and> length (issued s2) < 2 ^ 64"
    then have mid: "after_rounds env n1 inp1 sB = Some (WUint 3 # WUint t # inp2, sE)"
      and endtx: "EndTx_succeeds env sE t inp2 sF"
      and later: "after_rounds env n2 inp2 sF = Some (inp3, s2)"
      and small: "length (issued s2) < 2 ^ 64"
      by simp_all
    from endtx have stE: "one_command env (WUint 3 # WUint t # inp2) sE = Cont inp2 sF"
      by (simp add: EndTx_succeeds_def)
    have smallE: "length (issued sE) < 2 ^ 64"
      using effect_length [OF one_command_effect [OF stE]] rounds_length [OF later] small by simp
    have wE: "wf sE" using rounds_wf [OF wB mid] .
    have tE: "tidy sE" using rounds_tidy [OF tB mid] .
    have iE: "b \<in> set (issued sE)" using rounds_issued [OF mid] fB(4) by blast
    have ownE: "buckets sE b \<noteq> None \<longrightarrow> indexed_bucket sE t b"
      using rounds_owned_bucket [OF wB fB(4) _ mid smallE] fB(3) by simp
    note k = EndTx_kills_bucket [OF wE iE ownE tE endtx later small]
    then have b2: "buckets s2 b = None" by simp
    show "(\<exists>tx. transactions sE t = Some tx \<and> tx_Rollback env tx (world sE) = (None, world sF)) \<and>
        transactions sF t = None \<and> bucketsByTx sF t = None \<and>
        buckets sF b = None \<and> cursorsByBucket sF b = None \<and> buckets s2 b = None \<and>
        (\<forall>key r. one_command env (WUint 5 # WUint b # WBytes key # r) s2
           = (if write_ok env (out s2) (WBytes None)
              then Cont r (s2\<lparr>lastError := Some ''bucket not found'',
                             out := out s2 @ [WBytes None]\<rparr>)
              else Halt (Some EncodeFailure) (s2\<lparr>lastError := Some ''bucket not found''\<rparr>))) \<and>
        (\<forall>r. one_command env (WUint 6 # WUint b # r) s2
           = (if write_ok env (out s2) (WUint 0)
              then Cont r (s2\<lparr>lastError := Some ''bucket not found'',
                             out := out s2 @ [WUint 0]\<rparr>)
              else Halt (Some EncodeFailure) (s2\<lparr>lastError := Some ''bucket not found''\<rparr>)))"
      using k Get_no_bucket [OF b2] Cursor_no_bucket [OF b2] by (simp only: simp_thms)
  }
  {
    assume "after_rounds env m1 inp1 sB = Some (WUint 6 # WUint b # inp4, sC) \<and>
      Cursor_returns env sC b inp4 c sD \<and>
      after_rounds env m2 inp4 sD = Some (WUint 3 # WUint t # inp5, sG) \<and>
      EndTx_succeeds env sG t inp5 sH \<and>
      after_rounds env m3 inp5 sH = Some (inp6, s3) \<and> length (issued s3) < 2 ^ 64"
    then have mid1: "after_rounds env m1 inp1 sB = Some (WUint 6 # WUint b # inp4, sC)"
      and cursor: "Cursor_returns env sC b inp4 c sD"
      and mid2: "after_rounds env m2 inp4 sD = Some (WUint 3 # WUint t # inp5, sG)"
      and endtx: "EndTx_succeeds env sG t inp5 sH"
      and later: "after_rounds env m3 inp5 sH = Some (inp6, s3)"
      and small: "length (issued s3) < 2 ^ 64"
      by simp_all
    from cursor have stC: "one_command env (WUint 6 # WUint b # inp4) sC = Cont inp4 sD"
      by (simp add: Cursor_returns_def)
    from endtx have stG: "one_command env (WUint 3 # WUint t # inp5) sG = Cont inp5 sH"
      by (simp add: EndTx_succeeds_def)
    have smallG: "length (issued sG) < 2 ^ 64"
      using effect_length [OF one_command_effect [OF stG]] rounds_length [OF later] small by simp
    have wC: "wf sC" using rounds_wf [OF wB mid1] .
    have wD: "wf sD" using wf_effect [OF wC one_command_effect [OF stC]] .
    have wG: "wf sG" using rounds_wf [OF wD mid2] .
    note fD = Cursor_returns_facts [OF cursor]
    have "after_rounds env (Suc m1) inp1 sB = Some (inp4, sD)"
      using after_rounds_snoc [OF mid1 stC] .
    from after_rounds_add [OF this, of m2] mid2
    have reachG: "after_rounds env (Suc m1 + m2) inp1 sB = Some (WUint 3 # WUint t # inp5, sG)"
      by simp
    have iG: "c \<in> set (issued sG)" using rounds_issued [OF mid2] fD(5) by blast
    have own_b: "buckets sG b \<noteq> None \<longrightarrow> indexed_bucket sG t b"
      using rounds_owned_bucket [OF wB fB(4) _ reachG smallG] fB(3) by simp
    have own_c: "cursors sG c \<noteq> None \<longrightarrow> indexed_cursor sG b c \<and> buckets sG b \<noteq> None"
      using rounds_owned_cursor [OF wD fD(5) _ mid2 smallG] fD(3,4) by simp
    note k = EndTx_kills_cursor [OF wG iG own_b own_c endtx later small]
    then have c3: "cursors s3 c = None" by simp
    show "cursors sH c = None \<and> cursors s3 c = None \<and>
        (\<forall>key r. one_command env (WUint 7 # WUint c # WBytes key # r) s3
           = (if write_ok env (out s3) (WBytes None)
              then if write_ok env (out s3 @ [WBytes None]) (WBytes None)
                then Cont r (s3\<lparr>lastError := Some ''cursor not found'',
                               out := out s3 @ [WBytes None, WBytes None]\<rparr>)
                else Halt (Some EncodeFailure)
                       (s3\<lparr>lastError := Some ''cursor not found'',
                          out := out s3 @ [WBytes None]\<rparr>)
              else Halt (Some EncodeFailure) (s3\<lparr>lastError := Some ''cursor not found''\<rparr>))) \<and>
        (\<forall>r. one_command env (WUint 8 # WUint c # r) s3
           = Cont (snd (decode_uint64 r)) (s3\<lparr>lastError := Some ''cursor not found''\<rparr>))"
      using k Seek_no_cursor [OF c3] Next_no_cursor [OF c3] by (simp only: simp_thms)
  }
qed

text \<open>
  On the small store: \<^verbatim>\<open>BeginTx\<close>, \<^verbatim>\<open>Bucket(1, "data")\<close> returns 2, \<^verbatim>\<open>Cursor(2)\<close> returns 3,
  \<^verbatim>\<open>Seek(3, "")\<close>, \<^verbatim>\<open>EndTx(1)\<close>, \<^verbatim>\<open>Version\<close>; then \<^verbatim>\<open>Get\<close> and \<^verbatim>\<open>Cursor\<close> on 2 and \<^verbatim>\<open>Seek\<close>
  and \<^verbatim>\<open>Next\<close> on 3 all go on with the not-found error.
\<close>

theorem EndTx_invalidates_witness:
  "after_rounds demo_env 1 (demo_input @ [WUint 3, WUint 1, WUint 0]) (init ())
     = Some ([WUint 4, WUint 1, WBytes (Some [100, 97, 116, 97]), WUint 6, WUint 2,
              WUint 7, WUint 3, WBytes (Some []), WUint 3, WUint 1, WUint 0], began_session) \<and>
   Bucket_returns demo_env began_session 1 (Some [100, 97, 116, 97])
     [WUint 6, WUint 2, WUint 7, WUint 3, WBytes (Some []), WUint 3, WUint 1, WUint 0]
     2 opened_session \<and>
   after_rounds demo_env 2
       [WUint 6, WUint 2, WUint 7, WUint 3, WBytes (Some []), WUint 3, WUint 1, WUint 0]
       opened_session
     = Some ([WUint 3, WUint 1, WUint 0], demo_session) \<and>
   after_rounds demo_env 0
       [WUint 6, WUint 2, WUint 7, WUint 3, WBytes (Some []), WUint 3, WUint 1, WUint 0]
       opened_session
     = Some ([WUint 6, WUint 2, WUint 7, WUint 3, WBytes (Some []), WUint 3, WUint 1, WUint 0],
             opened_session) \<and>
   Cursor_returns demo_env opened_session 2
     [WUint 7, WUint 3, WBytes (Some []), WUint 3, WUint 1, WUint 0] 3 cursor_session \<and>
   after_rounds demo_env 1 [WUint 7, WUint 3, WBytes (Some []), WUint 3, WUint 1, WUint 0]
       cursor_session
     = Some ([WUint 3, WUint 1, WUint 0], demo_session) \<and>
   EndTx_succeeds demo_env demo_session 1 [WUint 0] ended_session \<and>
   after_rounds demo_env 1 [WUint 0] ended_session = Some ([], final_session) \<and>
   length (issued final_session) < 2 ^ 64 \<and>
   buckets ended_session 2 = None \<and> cursors ended_session 3 = None \<and>
   buckets final_session 2 = None \<and> cursors final_session 3 = None \<and>
   one_command demo_env [WUint 5, WUint 2, WBytes (Some [97])] final_session
     = Cont [] (final_session\<lparr>lastError := Some ''bucket not found'',
                  out := out final_session @ [WBytes None]\<rparr>) \<and>
   one_command demo_env [WUint 6, WUint 2] final_session
     = Cont [] (final_session\<lparr>lastError := Some ''bucket not found'',
                  out := out final_session @ [WUint 0]\<rparr>) \<and>
   one_command demo_env [WUint 7, WUint 3, WBytes (Some [])] final_session
     = Cont [] (final_session\<lparr>lastError := Some ''cursor not found'',
                  out := out final_session @ [WBytes None, WBytes None]\<rparr>) \<and>
   one_command demo_env [WUint 8, WUint 3, WUint 1] final_session
     = Cont [] (final_session\<lparr>lastError := Some ''cursor not found''\<rparr>)"
proof -
  let ?data = "Some [100, 97, 116, 97] :: byteslice"
  let ?tail = "[WUint 3, WUint 1, WUint 0]"
  let ?inp4 = "[WUint 7, WUint 3, WBytes (Some []), WUint 3, WUint 1, WUint 0]"
  let ?inp1 = "WUint 6 # WUint 2 # ?inp4"
  note defs = one_command_tag dispatch_def Cmd_defs do_BeginTx_def do_Bucket_def do_Cursor_def
    do_Seek_def do_EndTx_def do_Version_def remove_buckets_def remove_bucket_def Let_def
    Encode_def Encode2_def encode_def demo_env_def demo_Seek_def demo_items_def init_def
    demo_session_def began_session_def opened_session_def cursor_session_def ended_session_def
    final_session_def
  have reach: "after_rounds demo_env 1 (demo_input @ ?tail) (init ())
      = Some (WUint 4 # WUint 1 # WBytes ?data # ?inp1, began_session)"
    by (simp add: after_rounds_1 demo_input_def defs)
  have bucket: "Bucket_returns demo_env began_session 1 ?data ?inp1 2 opened_session"
    by (simp add: Bucket_returns_def defs)
  have mid: "after_rounds demo_env 2 ?inp1 opened_session
      = Some (WUint 3 # WUint 1 # [WUint 0], demo_session)"
    by (simp add: after_rounds_numeral after_rounds_1 defs)
  have mid1: "after_rounds demo_env 0 ?inp1 opened_session
      = Some (WUint 6 # WUint 2 # ?inp4, opened_session)"
    by simp
  have cursor: "Cursor_returns demo_env opened_session 2 ?inp4 3 cursor_session"
    by (simp add: Cursor_returns_def defs)
  have mid2: "after_rounds demo_env 1 ?inp4 cursor_session
      = Some (WUint 3 # WUint 1 # [WUint 0], demo_session)"
    by (simp add: after_rounds_1 defs)
  have endtx: "EndTx_succeeds demo_env demo_session 1 [WUint 0] ended_session"
    by (simp add: EndTx_succeeds_def defs)
  have later: "after_rounds demo_env 1 [WUint 0] ended_session = Some ([], final_session)"
    by (simp add: after_rounds_1 defs)
  have small: "length (issued final_session) < 2 ^ 64"
    by (simp add: final_session_def ended_session_def demo_session_def)
  note T = EndTx_invalidates [OF reach bucket]
  have p1: "buckets ended_session 2 = None \<and> buckets final_session 2 = None \<and>
     one_command demo_env [WUint 5, WUint 2, WBytes (Some [97])] final_session
       = Cont [] (final_session\<lparr>lastError := Some ''bucket not found'',
                    out := out final_session @ [WBytes None]\<rparr>) \<and>
     one_command demo_env [WUint 6, WUint 2] final_session
       = Cont [] (final_session\<lparr>lastError := Some ''bucket not found'',
                    out := out final_session @ [WUint 0]\<rparr>)"
    using T [THEN conjunct1, THEN mp, OF conjI [OF mid conjI [OF endtx conjI [OF later small]]]]
    by (simp add: demo_write_ok)
  have p2: "cursors ended_session 3 = None \<and> cursors final_session 3 = None \<and>
     one_command demo_env [WUint 7, WUint 3, WBytes (Some [])] final_session
       = Cont [] (final_session\<lparr>lastError := Some ''cursor not found'',
                    out := out final_session @ [WBytes None, WBytes None]\<rparr>) \<and>
     one_command demo_env [WUint 8, WUint 3, WUint 1] final_session
       = Cont [] (final_session\<lparr>lastError := Some ''cursor not found''\<rparr>)"
    using T [THEN conjunct2, THEN mp,
        OF conjI [OF mid1 conjI [OF cursor conjI [OF mid2 conjI [OF endtx conjI [OF later small]]]]]]
    by (simp add: demo_write_ok)
  from reach bucket mid mid1 cursor mid2 endtx later small p1 p2 show ?thesis by simp
qed

text \<open>
  C3 as stated fails when the 64-bit counter wraps around: on \<open>wrap_input\<close>, bucket 2 of
  transaction 1 is invalidated by \<^verbatim>\<open>EndTx(1)\<close>, the counter comes round to 2 again for a
  bucket of transaction 4, and the later \<^verbatim>\<open>Get(2, "a")\<close> succeeds: \<^verbatim>\<open>lastError\<close> is nil
  and the answer is the stored value.
\<close>

theorem bucket_handle_reused_after_wrap:
  "fst (Server demo_env () wrap_input) = None \<and>
   lastError (snd (Server demo_env () wrap_input)) = None \<and>
   last (out (snd (Server demo_env () wrap_input))) = WBytes (Some [49])"
proof -
  let ?data = "WBytes (Some [100, 97, 116, 97])"
  let ?mid = "concat (replicate (2 ^ 64 - 2) [WUint 4, WUint 4, ?data])"
  let ?post = "[WUint 5, WUint 2, WBytes (Some [97])]"
  let ?s5 = "\<lparr> lastError = None, lastHandle = 4,
     transactions = [4 \<mapsto> ()], buckets = Map.empty, bucketsByTx = Map.empty,
     cursors = Map.empty, cursorsByBucket = Map.empty, deferred = [(), ()],
     out = [WUint 1, WUint 2, WUint 3, WUint 4],
     world = (), closed = False, issued = [1, 2, 3, 4] \<rparr>
       :: (unit, unit, pairs, pairs \<times> pairs) session"
  have "after_rounds demo_env 5 wrap_input (init ()) = Some (?mid @ ?post, ?s5)"
    unfolding wrap_input_def
    by (simp add: after_rounds_numeral after_rounds_1 one_command_tag dispatch_def Cmd_defs
        do_BeginTx_def do_Bucket_def do_Cursor_def do_EndTx_def Encode_def encode_def demo_env_def
        init_def Let_def remove_buckets_def remove_bucket_def)
  then have pre: "Server_loop demo_env wrap_input (init ()) = Server_loop demo_env (?mid @ ?post) ?s5"
    by (rule Server_loop_after_rounds)
  have "transactions ?s5 4 = Some ()" by simp
  from many_Bucket [OF this, of "2 ^ 64 - 2" ?post] obtain s' where s':
    "Server_loop demo_env (?mid @ ?post) ?s5 = Server_loop demo_env ?post s'"
    "lastHandle s' = lastHandle ?s5 + of_nat (2 ^ 64 - 2)"
    "buckets s' (lastHandle s') = Some demo_items"
    by auto
  have "lastHandle s' = 2" using s'(2) by simp
  with s'(3) have b2: "buckets s' 2 = Some demo_items" by simp
  have get: "one_command demo_env ?post s'
      = Cont [] (s'\<lparr>lastError := None, out := out s' @ [WBytes (Some [49])]\<rparr>)"
    using b2
    by (simp add: one_command_tag dispatch_def Cmd_defs do_Get_def Encode_def encode_def
        demo_env_def demo_items_def)
  have "Server_loop demo_env ?post s'
      = (None, s'\<lparr>lastError := None, out := out s' @ [WBytes (Some [49])]\<rparr>)"
    using Server_loop_Cont [OF get] by (simp add: Server_loop_Nil)
  with pre s'(1) have "Server demo_env () wrap_input
      = (None, cleanup demo_env (s'\<lparr>lastError := None, out := out s' @ [WBytes (Some [49])]\<rparr>))"
    by (simp add: Server_def)
  then show ?thesis by (simp add: cleanup_def)
qed

end
